theory Spec2Isabelle
  imports Main "HOL-Library.Multiset" "HOL-Library.Sublist" "HOL-Library.Product_Lexorder"
begin

section \<open>Strings of the source language\<close>

text \<open>
  A JavaScript string is a sequence of UTF-16 code units. The model covers the strings
  whose code units are below 256 (the Latin-1 block, which contains ASCII): one
  \<^typ>\<open>char\<close> is one code unit. On this range \<^verbatim>\<open>toLowerCase\<close> maps
  \<^verbatim>\<open>A..Z\<close> and the accented capitals U+00C0..U+00DE (without the
  multiplication sign U+00D7) to the code unit 32 places higher and leaves every other
  code unit alone, and the regular expression class \<^verbatim>\<open>\s\<close> holds TAB, LF,
  VT, FF, CR, SPACE and the no-break space U+00A0.
\<close>

definition toLowerChar :: "char \<Rightarrow> char" where
  "toLowerChar c =
     (let n = (of_char c :: nat)
      in if (65 \<le> n \<and> n \<le> 90) \<or> (192 \<le> n \<and> n \<le> 222 \<and> n \<noteq> 215)
         then char_of (n + 32) else c)"

definition toLowerCase :: "string \<Rightarrow> string" where
  "toLowerCase s = map toLowerChar s"

definition isWhiteSpace :: "char \<Rightarrow> bool" where
  "isWhiteSpace c =
     (let n = (of_char c :: nat) in (9 \<le> n \<and> n \<le> 13) \<or> n = 32 \<or> n = 160)"

text \<open>\<^verbatim>\<open>s.startsWith(t)\<close>, written out on lists of code units.\<close>

fun startsWith :: "string \<Rightarrow> string \<Rightarrow> bool" where
  "startsWith s [] = True"
| "startsWith [] (d # t) = False"
| "startsWith (c # s) (d # t) = (c = d \<and> startsWith s t)"

text \<open>
  \<^verbatim>\<open>s.includes(t)\<close>: \<open>t\<close> occurs in \<open>s\<close> at some position; the empty string
  occurs in every string.
\<close>

fun includes_str :: "string \<Rightarrow> string \<Rightarrow> bool" where
  "includes_str [] t = (t = [])"
| "includes_str (c # s) t = (startsWith (c # s) t \<or> includes_str s t)"

text \<open>\<^verbatim>\<open>s.endsWith(t)\<close>.\<close>

definition endsWith :: "string \<Rightarrow> string \<Rightarrow> bool" where
  "endsWith s t = startsWith (rev s) (rev t)"

text \<open>
  \<^verbatim>\<open>s.split(/\s+/)\<close>: the pieces of \<open>s\<close> between the maximal runs of white
  space. A run at the start or at the end of \<open>s\<close> leaves an empty piece there, and
  the empty string splits into one empty piece.
\<close>

fun split_ws :: "string \<Rightarrow> string list" where
  "split_ws [] = [[]]"
| "split_ws (c # cs) =
     (if isWhiteSpace c
      then (if cs \<noteq> [] \<and> isWhiteSpace (hd cs) then split_ws cs else [] # split_ws cs)
      else (case split_ws cs of [] \<Rightarrow> [[c]] | p # ps \<Rightarrow> (c # p) # ps))"

text \<open>\<^verbatim>\<open>.filter(Boolean)\<close> on an array of strings keeps the non-empty ones.\<close>

definition filterBoolean :: "string list \<Rightarrow> string list" where
  "filterBoolean ts = filter (\<lambda>t. t \<noteq> []) ts"

section \<open>Data model\<close>

text \<open>
  Modelled from the spec: the declarations of \<^verbatim>\<open>ParsedSession\<close>,
  \<^verbatim>\<open>SearchResult\<close> and \<^verbatim>\<open>SearchOptions\<close> (shared/types) are not
  among the sources. The fields are those that search.ts reads or prints, with
  \<open>summary\<close> and \<open>category\<close> from the specification's SessionRecord. The
  \<^verbatim>\<open>Date\<close>s of a session and of a file are valid and are given by their
  \<^verbatim>\<open>getTime()\<close>, the milliseconds since the epoch; a \<^verbatim>\<open>number\<close> is an
  integer; the arrays of strings are lists.
\<close>

record parsedSession =
  id :: string
  startedAt :: int
  endedAt :: int
  gitBranch :: "string option"
  messageCount :: nat
  inputTokens :: nat
  outputTokens :: nat
  toolsUsed :: "string list"
  filesFromToolCalls :: "string list"
  userMessages :: "string list"
  modelsUsed :: "string list"
  summary :: "string option"
  category :: "string option"

record searchResult = parsedSession +
  relevance :: int
  transcriptPath :: string

text \<open>
  A \<^verbatim>\<open>Date\<close> that the caller or the program makes holds a time value, a whole
  number of milliseconds of magnitude at most \<open>8.64e15\<close>, or it is an Invalid Date:
  \<^verbatim>\<open>new Date(t)\<close> is invalid when \<open>t\<close> lies beyond that range, and
  \<^verbatim>\<open>new Date(s)\<close> is invalid for a string \<open>s\<close> that is no date. Every
  comparison with an Invalid Date is false.
\<close>

datatype date = Date int | InvalidDate

definition validTime :: "int \<Rightarrow> bool" where
  "validTime t = (- 8640000000000000 \<le> t \<and> t \<le> 8640000000000000)"

definition newDate :: "int \<Rightarrow> date" where
  "newDate t = (if validTime t then Date t else InvalidDate)"

text \<open>\<^verbatim>\<open>m < d\<close> and \<^verbatim>\<open>m > d\<close> for a file time \<open>m\<close> and a Date \<open>d\<close>.\<close>

definition timeBefore :: "int \<Rightarrow> date \<Rightarrow> bool" where
  "timeBefore m d = (case d of Date t \<Rightarrow> m < t | InvalidDate \<Rightarrow> False)"

definition timeAfter :: "int \<Rightarrow> date \<Rightarrow> bool" where
  "timeAfter m d = (case d of Date t \<Rightarrow> m > t | InvalidDate \<Rightarrow> False)"

text \<open>
  Every option may be absent (\<open>None\<close> is \<^verbatim>\<open>undefined\<close>). The number
  \<^verbatim>\<open>NaN\<close>, which \<^verbatim>\<open>parseInt\<close> gives for \<open>days\<close> or \<open>limit\<close> on a
  malformed argument, is falsy and is read by search.ts exactly as an absent value is,
  so \<open>None\<close> stands for it too. A \<open>since\<close> or \<open>until\<close> that is present is a
  \<^verbatim>\<open>Date\<close>, valid or not.
\<close>

record searchOptions =
  query :: "string option"
  days :: "int option"
  since :: "date option"
  until :: "date option"
  tools :: "string list option"
  filePattern :: "string option"
  limit :: "int option"

section \<open>The world outside the program\<close>

text \<open>
  search.ts reads the file system, the clock and the session parser. They are the
  fields of one record that every operation receives. A call that throws returns
  \<open>None\<close>. The parser \<^verbatim>\<open>parseSessionFile\<close> (shared/parser) is not among the
  sources; search.ts handles its three outcomes, an exception, \<^verbatim>\<open>null\<close> and a
  session, and the model takes it as it comes. \<open>join\<close> is \<^verbatim>\<open>path.join\<close>, and
  \<open>clock dir\<close> is the reading of \<^verbatim>\<open>new Date()\<close> at the moment the directory
  \<open>dir\<close> is scanned.
\<close>

record fileStat =
  isDirectory :: bool
  mtime :: int

datatype parseOutcome = Throws | Null | Parsed parsedSession

record world =
  readdirSync :: "string \<Rightarrow> string list option"
  statSync :: "string \<Rightarrow> fileStat option"
  parseSessionFile :: "string \<Rightarrow> parseOutcome"
  join :: "string \<Rightarrow> string \<Rightarrow> string"
  clock :: "string \<Rightarrow> int"

section \<open>file-based/search.ts\<close>

subsection \<open>findSessionDirs\<close>

definition findSessionDirs :: "world \<Rightarrow> string \<Rightarrow> string list" where
  "findSessionDirs w baseDir =
     (case readdirSync w baseDir of
        None \<Rightarrow> []
      | Some names \<Rightarrow>
          filter (\<lambda>path. case statSync w path of None \<Rightarrow> False | Some st \<Rightarrow> isDirectory st)
                 (map (\<lambda>name. join w baseDir name) names))"

subsection \<open>findSessionFiles\<close>

text \<open>
  The date cutoff: the explicit \<open>since\<close> when there is one (a \<^verbatim>\<open>Date\<close> is
  truthy also when it is invalid), otherwise
  \<^verbatim>\<open>new Date(now.getTime() - options.days * 24 * 60 * 60 * 1000)\<close> when \<open>days\<close>
  is given and not zero. The source computes the argument on doubles. For a whole
  number of days and the time value \<open>now\<close> of a valid \<^verbatim>\<open>Date\<close> the double
  result is the exact integer whenever that integer lies in the range of dates, and
  lies outside the range whenever the integer does; so the exact integer gives the
  same \<^verbatim>\<open>Date\<close>.
\<close>

definition sinceCutoff :: "searchOptions \<Rightarrow> int \<Rightarrow> date option" where
  "sinceCutoff options now =
     (case since options of
        Some s \<Rightarrow> Some s
      | None \<Rightarrow>
          (case days options of
             None \<Rightarrow> None
           | Some d \<Rightarrow>
               if d \<noteq> 0 then Some (newDate (now - d * 24 * 60 * 60 * 1000)) else None))"

text \<open>
  The loop over the directory entries. \<open>statSync\<close> throwing leaves the loop for the
  handler, which keeps the files pushed so far.
\<close>

fun scanEntries ::
  "world \<Rightarrow> string \<Rightarrow> date option \<Rightarrow> date option \<Rightarrow> string list \<Rightarrow> string list \<Rightarrow> string list"
where
  "scanEntries w dir snc unt [] files = files"
| "scanEntries w dir snc unt (file # rest) files =
     (if \<not> endsWith file ''.jsonl'' then scanEntries w dir snc unt rest files
      else
        (let filePath = join w dir file in
         case statSync w filePath of
           None \<Rightarrow> files
         | Some st \<Rightarrow>
             if (case snc of Some s \<Rightarrow> timeBefore (mtime st) s | None \<Rightarrow> False)
             then scanEntries w dir snc unt rest files
             else if (case unt of Some u \<Rightarrow> timeAfter (mtime st) u | None \<Rightarrow> False)
             then scanEntries w dir snc unt rest files
             else scanEntries w dir snc unt rest (files @ [filePath])))"

definition findSessionFiles :: "world \<Rightarrow> string \<Rightarrow> searchOptions \<Rightarrow> string list" where
  "findSessionFiles w dir options =
     (let now = clock w dir;
          snc = sinceCutoff options now
      in case readdirSync w dir of
           None \<Rightarrow> []
         | Some names \<Rightarrow> scanEntries w dir snc (until options) names [])"

subsection \<open>scoreRelevance\<close>

text \<open>
  The inner loop: every query term found in \<open>text\<close> adds \<open>weight\<close>. (The array
  \<^verbatim>\<open>matchedOn\<close> of the source is filled and never read; it is left out.)
\<close>

fun scoreTerms :: "int \<Rightarrow> string \<Rightarrow> string list \<Rightarrow> int \<Rightarrow> int" where
  "scoreTerms weight text [] score = score"
| "scoreTerms weight text (term # rest) score =
     scoreTerms weight text rest (if includes_str text term then score + weight else score)"

text \<open>The outer loop over the strings of one field, each lowercased first.\<close>

fun scoreField :: "int \<Rightarrow> string list \<Rightarrow> string list \<Rightarrow> int \<Rightarrow> int" where
  "scoreField weight [] queryTerms score = score"
| "scoreField weight (msg # rest) queryTerms score =
     scoreField weight rest queryTerms (scoreTerms weight (toLowerCase msg) queryTerms score)"

definition scoreRelevance :: "'a parsedSession_scheme \<Rightarrow> string \<Rightarrow> int" where
  "scoreRelevance session qry =
     (if qry = [] then 1
      else
        (let queryLower = toLowerCase qry;
             queryTerms = filterBoolean (split_ws queryLower);
             score = 0;
             score = scoreField 10 (userMessages session) queryTerms score;
             score = scoreField 3 (toolsUsed session) queryTerms score;
             score = scoreField 3 (filesFromToolCalls session) queryTerms score
         in score))"

subsection \<open>matchesFilters\<close>

definition matchesFilters :: "'a parsedSession_scheme \<Rightarrow> searchOptions \<Rightarrow> bool" where
  "matchesFilters session options =
     (if (case tools options of
            Some ts \<Rightarrow> ts \<noteq> [] \<and>
              \<not> list_ex (\<lambda>tool. list_ex (\<lambda>t. includes_str (toLowerCase t) (toLowerCase tool))
                                         (toolsUsed session)) ts
          | None \<Rightarrow> False)
      then False
      else if (case filePattern options of
                 Some fp \<Rightarrow> fp \<noteq> [] \<and>
                   \<not> list_ex (\<lambda>f. includes_str (toLowerCase f) (toLowerCase fp))
                             (filesFromToolCalls session)
               | None \<Rightarrow> False)
      then False
      else True)"

subsection \<open>searchSessions\<close>

text \<open>
  The body of the loop over the files: \<open>None\<close> when the file is skipped, otherwise
  the result that is pushed. A query is used when it is present and not empty.
\<close>

definition queryGiven :: "searchOptions \<Rightarrow> bool" where
  "queryGiven options = (case query options of Some q \<Rightarrow> q \<noteq> [] | None \<Rightarrow> False)"

definition considerFile :: "world \<Rightarrow> searchOptions \<Rightarrow> string \<Rightarrow> searchResult option" where
  "considerFile w options filePath =
     (case parseSessionFile w filePath of
        Throws \<Rightarrow> None
      | Null \<Rightarrow> None
      | Parsed session \<Rightarrow>
          if userMessages session = [] then None
          else if \<not> matchesFilters session options then None
          else
            (let relevance =
                   (case query options of
                      Some q \<Rightarrow> if q \<noteq> [] then scoreRelevance session q else 1
                    | None \<Rightarrow> 1)
             in if queryGiven options \<and> relevance = 0 then None
                else Some (parsedSession.extend session
                             (searchResult.fields relevance filePath))))"

text \<open>The loop over the files of one directory, pushing onto \<open>results\<close>.\<close>

fun pushFiles ::
  "world \<Rightarrow> searchOptions \<Rightarrow> string list \<Rightarrow> searchResult list \<Rightarrow> searchResult list"
where
  "pushFiles w options [] results = results"
| "pushFiles w options (filePath # rest) results =
     pushFiles w options rest
       (case considerFile w options filePath of
          None \<Rightarrow> results
        | Some r \<Rightarrow> results @ [r])"

text \<open>The loop over the session directories.\<close>

fun pushDirs ::
  "world \<Rightarrow> searchOptions \<Rightarrow> string list \<Rightarrow> searchResult list \<Rightarrow> searchResult list"
where
  "pushDirs w options [] results = results"
| "pushDirs w options (dir # rest) results =
     pushDirs w options rest (pushFiles w options (findSessionFiles w dir options) results)"

text \<open>\<^verbatim>\<open>x || 0\<close> on a number.\<close>

definition orZero :: "int \<Rightarrow> int" where
  "orZero x = (if x = 0 then 0 else x)"

text \<open>The comparator handed to \<^verbatim>\<open>results.sort\<close>.\<close>

definition compareResults :: "searchResult \<Rightarrow> searchResult \<Rightarrow> int" where
  "compareResults a b =
     (if relevance a \<noteq> relevance b
      then orZero (relevance b) - orZero (relevance a)
      else endedAt b - endedAt a)"

text \<open>
  \<^verbatim>\<open>Array.prototype.sort\<close> is a stable sort: \<open>a\<close> stays in front of \<open>b\<close>
  unless the comparator is positive on \<open>(a, b)\<close>. Stable insertion is the model; on a
  comparator that is a total preorder, as \<open>compareResults\<close> is, every stable sort
  returns the same array.
\<close>

fun insertBy :: "('a \<Rightarrow> 'a \<Rightarrow> int) \<Rightarrow> 'a \<Rightarrow> 'a list \<Rightarrow> 'a list" where
  "insertBy cmp a [] = [a]"
| "insertBy cmp a (b # bs) = (if cmp a b \<le> 0 then a # b # bs else b # insertBy cmp a bs)"

fun sortBy :: "('a \<Rightarrow> 'a \<Rightarrow> int) \<Rightarrow> 'a list \<Rightarrow> 'a list" where
  "sortBy cmp [] = []"
| "sortBy cmp (a # as) = insertBy cmp a (sortBy cmp as)"

text \<open>
  \<^verbatim>\<open>xs.slice(0, n)\<close>: the first \<open>n\<close> elements; a negative \<open>n\<close> counts from
  the end of the array.
\<close>

definition slice0 :: "'a list \<Rightarrow> int \<Rightarrow> 'a list" where
  "slice0 xs n = (if n < 0 then take (nat (int (length xs) + n)) xs else take (nat n) xs)"

text \<open>\<^verbatim>\<open>options.limit || 20\<close>.\<close>

definition limitOrDefault :: "searchOptions \<Rightarrow> int" where
  "limitOrDefault options =
     (case limit options of Some n \<Rightarrow> if n \<noteq> 0 then n else 20 | None \<Rightarrow> 20)"

definition searchSessions :: "world \<Rightarrow> string \<Rightarrow> searchOptions \<Rightarrow> searchResult list" where
  "searchSessions w baseDir options =
     (let sessionDirs = findSessionDirs w baseDir;
          results = pushDirs w options sessionDirs [];
          results = sortBy compareResults results
      in slice0 results (limitOrDefault options))"

section \<open>postgres/api.ts: the route /sessions\<close>

subsection \<open>The limit\<close>

text \<open>
  \<^verbatim>\<open>parseInt(s, 10)\<close>: leading white space is dropped, one sign is read, and the
  longest run of decimal digits that follows is the value; with no digit the result is
  \<^verbatim>\<open>NaN\<close>, here \<open>None\<close>. (Values are exact, as they are below \<open>2^53\<close>.)
\<close>

definition isDigit :: "char \<Rightarrow> bool" where
  "isDigit c = (let n = (of_char c :: nat) in 48 \<le> n \<and> n \<le> 57)"

definition digitsValue :: "string \<Rightarrow> int" where
  "digitsValue ds = foldl (\<lambda>v c. 10 * v + (of_char c - 48)) 0 ds"

definition parseInt10 :: "string \<Rightarrow> int option" where
  "parseInt10 s =
     (let t = dropWhile isWhiteSpace s;
          neg = (t \<noteq> [] \<and> hd t = CHR ''-'');
          u = (if t \<noteq> [] \<and> (hd t = CHR ''-'' \<or> hd t = CHR ''+'') then tl t else t);
          ds = takeWhile isDigit u
      in if ds = [] then None
         else Some (if neg then - digitsValue ds else digitsValue ds))"

text \<open>
  \<^verbatim>\<open>Math.min(parseInt(limitStr || '20', 10), 100)\<close>; the minimum of
  \<^verbatim>\<open>NaN\<close> and 100 is \<^verbatim>\<open>NaN\<close>.
\<close>

definition apiLimit :: "string option \<Rightarrow> int option" where
  "apiLimit limitStr =
     (case parseInt10 (case limitStr of Some s \<Rightarrow> if s \<noteq> [] then s else ''20'' | None \<Rightarrow> ''20'') of
        None \<Rightarrow> None
      | Some n \<Rightarrow> Some (min n 100))"

subsection \<open>The tool condition\<close>

text \<open>
  \<^verbatim>\<open>tools.split(',').map((t) => t.trim())\<close> is the list of requested names;
  the condition
  \<^verbatim>\<open>tools_used ?| $n\<close> that is added to the WHERE clause holds for a row
  when one of these names is an element of the row's array \<open>tools_used\<close> (the
  operator compares whole strings, case-sensitively). The condition is added only
  when the parameter is present and not empty.
\<close>

fun split_comma :: "string \<Rightarrow> string list" where
  "split_comma [] = [[]]"
| "split_comma (c # cs) =
     (if c = CHR '',''
      then [] # split_comma cs
      else (case split_comma cs of [] \<Rightarrow> [[c]] | p # ps \<Rightarrow> (c # p) # ps))"

definition trim :: "string \<Rightarrow> string" where
  "trim s = rev (dropWhile isWhiteSpace (rev (dropWhile isWhiteSpace s)))"

definition apiToolList :: "string \<Rightarrow> string list" where
  "apiToolList tls = map trim (split_comma tls)"

definition apiToolCondition :: "string option \<Rightarrow> string list \<Rightarrow> bool" where
  "apiToolCondition tls tools_used =
     (case tls of
        Some s \<Rightarrow> if s \<noteq> [] then list_ex (\<lambda>name. name \<in> set tools_used) (apiToolList s) else True
      | None \<Rightarrow> True)"

subsection \<open>The date conditions\<close>

text \<open>
  Each of the parameters \<open>days\<close>, \<open>since\<close> and \<open>until\<close> that is present and not
  empty adds one condition on the column \<open>ended_at\<close> to the WHERE clause, and the
  conditions are joined by AND:
  \<^verbatim>\<open>ended_at > NOW() - INTERVAL 'n days'\<close> with \<open>n\<close> the number
  \<^verbatim>\<open>parseInt(days, 10)\<close>, \<^verbatim>\<open>ended_at >= $k\<close> with the parameter
  \<^verbatim>\<open>new Date(since)\<close>, and \<^verbatim>\<open>ended_at <= $k\<close> with the parameter
  \<^verbatim>\<open>new Date(until)\<close>.

  The database is part of the world: \<open>nowMinusDays n\<close> is its value of
  \<^verbatim>\<open>NOW() - INTERVAL 'n days'\<close> in milliseconds since the epoch, and \<open>None\<close>
  when it refuses the expression, as it does for \<^verbatim>\<open>NaN\<close>. Times are whole
  milliseconds. A request whose query fails returns no row, and an Invalid Date has no
  value that could be sent as a parameter, so such a request returns no row either.
  \<open>apiDateCondition\<close> tells whether a row with the given \<open>ended_at\<close> passes the date
  conditions; its arguments are the parsed parameters, \<open>None\<close> for one that is absent
  or empty.
\<close>

datatype parsedNumber = NaN | Num int

record database =
  nowMinusDays :: "parsedNumber \<Rightarrow> int option"

definition apiDateCondition ::
  "database \<Rightarrow> parsedNumber option \<Rightarrow> date option \<Rightarrow> date option \<Rightarrow> int \<Rightarrow> bool"
where
  "apiDateCondition db dys snc unt ended_at =
     ((case dys of
         None \<Rightarrow> True
       | Some n \<Rightarrow> (case nowMinusDays db n of None \<Rightarrow> False | Some c \<Rightarrow> ended_at > c))
      \<and> (case snc of
            None \<Rightarrow> True
          | Some d \<Rightarrow> (case d of Date s \<Rightarrow> ended_at \<ge> s | InvalidDate \<Rightarrow> False))
      \<and> (case unt of
            None \<Rightarrow> True
          | Some d \<Rightarrow> (case d of Date u \<Rightarrow> ended_at \<le> u | InvalidDate \<Rightarrow> False)))"

section \<open>The specification's notions\<close>

text \<open>
  These definitions follow the words of the specification, not the code; the theorems
  below compare them with the code.

  ``Tokenize the query by whitespace'': the maximal runs of characters that are not
  white space, in their order.
\<close>

function spec_tokens :: "string \<Rightarrow> string list" where
  "spec_tokens s =
     (case dropWhile isWhiteSpace s of
        [] \<Rightarrow> []
      | c # r \<Rightarrow>
          (c # takeWhile (\<lambda>d. \<not> isWhiteSpace d) r)
            # spec_tokens (dropWhile (\<lambda>d. \<not> isWhiteSpace d) r))"
  by pat_completeness auto
termination
proof (relation "measure length")
  show "wf (measure length)" by simp
next
  fix s :: string and c r
  assume a: "dropWhile isWhiteSpace s = c # r"
  have "length (dropWhile (\<lambda>d. \<not> isWhiteSpace d) r) \<le> length r"
    by (rule length_dropWhile_le)
  also have "\<dots> < length (dropWhile isWhiteSpace s)"
    using a by simp
  also have "\<dots> \<le> length s"
    by (rule length_dropWhile_le)
  finally show "(dropWhile (\<lambda>d. \<not> isWhiteSpace d) r, s) \<in> measure length"
    by simp
qed

declare spec_tokens.simps [simp del]

text \<open>``Case-insensitive substring containment'' of a term in a text.\<close>

definition spec_matches :: "string \<Rightarrow> string \<Rightarrow> bool" where
  "spec_matches term text = sublist (toLowerCase term) (toLowerCase text)"

text \<open>The number of matches: one for each term and each text that contains it.\<close>

definition spec_hits :: "string list \<Rightarrow> string list \<Rightarrow> nat" where
  "spec_hits terms texts =
     (\<Sum>text\<leftarrow>texts. length (filter (\<lambda>term. spec_matches term text) terms))"

text \<open>Weight 10 on the user messages, 3 on the tool names, 3 on the file paths.\<close>

definition spec_score :: "'a parsedSession_scheme \<Rightarrow> string \<Rightarrow> int" where
  "spec_score session qry =
     (let terms = map toLowerCase (spec_tokens qry)
      in 10 * int (spec_hits terms (userMessages session))
         + 3 * int (spec_hits terms (toolsUsed session))
         + 3 * int (spec_hits terms (filesFromToolCalls session)))"

text \<open>
  The order ``score descending, ties by \<open>endedAt\<close> descending'': \<open>a\<close> may stand in
  front of \<open>b\<close>. \<open>spec_key\<close> is the pair that the order looks at.
\<close>

definition spec_precedes :: "searchResult \<Rightarrow> searchResult \<Rightarrow> bool" where
  "spec_precedes a b =
     (relevance b < relevance a \<or> (relevance a = relevance b \<and> endedAt b \<le> endedAt a))"

definition spec_key :: "searchResult \<Rightarrow> int \<times> int" where
  "spec_key r = (relevance r, endedAt r)"

section \<open>A concrete corpus\<close>

text \<open>
  Midnight UTC of four days of January 2025, in milliseconds since the epoch.
\<close>

definition jan10 :: int where "jan10 = 1736467200000"
definition jan15 :: int where "jan15 = 1736899200000"
definition jan18 :: int where "jan18 = 1737158400000"
definition jan20 :: int where "jan20 = 1737331200000"

definition mkSession ::
  "string \<Rightarrow> int \<Rightarrow> string list \<Rightarrow> string list \<Rightarrow> string list \<Rightarrow> string option \<Rightarrow> parsedSession"
where
  "mkSession ident ended msgs tls fls smry =
     \<lparr>id = ident, startedAt = ended - 3600000, endedAt = ended, gitBranch = Some ''main'',
      messageCount = 2 * length msgs, inputTokens = 1200, outputTokens = 300,
      toolsUsed = tls, filesFromToolCalls = fls, userMessages = msgs,
      modelsUsed = [''m''], summary = smry, category = None\<rparr>"

definition emailSession :: parsedSession where
  "emailSession =
     mkSession ''a'' jan10 [''Let's build an email filter'', ''Yes, ship it'']
       [''Edit'', ''Bash''] [] None"

definition schemaSession :: parsedSession where
  "schemaSession =
     mkSession ''b'' jan18 [''Fix the database schema''] [''Read'']
       [''src/db/schema.sql''] (Some ''email'')"

definition mailSession :: parsedSession where
  "mailSession = mkSession ''c'' jan15 [''send the email''] [''Bash''] [] None"

definition emptySession :: parsedSession where
  "emptySession = mkSession ''d'' jan18 [] [''Edit''] [''src/email.ts''] None"

text \<open>
  One project directory with four session logs, a file that is no log, and beside the
  directory a plain file. The log \<open>a.jsonl\<close> was last written on 18 January although
  its session ended on 10 January; \<open>e.jsonl\<close> is listed but cannot be parsed.
\<close>

definition exampleWorld :: world where
  "exampleWorld =
     \<lparr>readdirSync = (\<lambda>p.
          if p = ''/sessions'' then Some [''proj'', ''notes.txt'']
          else if p = ''/sessions/proj''
          then Some [''a.jsonl'', ''b.jsonl'', ''README.md'', ''c.jsonl'', ''d.jsonl'', ''e.jsonl'']
          else None),
      statSync = (\<lambda>p.
          if p = ''/sessions/proj'' then Some \<lparr>isDirectory = True, mtime = jan18\<rparr>
          else if p = ''/sessions/notes.txt'' then Some \<lparr>isDirectory = False, mtime = jan18\<rparr>
          else if p = ''/sessions/proj/a.jsonl'' then Some \<lparr>isDirectory = False, mtime = jan18\<rparr>
          else if p = ''/sessions/proj/b.jsonl'' then Some \<lparr>isDirectory = False, mtime = jan18\<rparr>
          else if p = ''/sessions/proj/c.jsonl'' then Some \<lparr>isDirectory = False, mtime = jan10\<rparr>
          else if p = ''/sessions/proj/d.jsonl'' then Some \<lparr>isDirectory = False, mtime = jan18\<rparr>
          else if p = ''/sessions/proj/e.jsonl'' then Some \<lparr>isDirectory = False, mtime = jan18\<rparr>
          else None),
      parseSessionFile = (\<lambda>p.
          if p = ''/sessions/proj/a.jsonl'' then Parsed emailSession
          else if p = ''/sessions/proj/b.jsonl'' then Parsed schemaSession
          else if p = ''/sessions/proj/c.jsonl'' then Parsed mailSession
          else if p = ''/sessions/proj/d.jsonl'' then Parsed emptySession
          else if p = ''/sessions/proj/e.jsonl'' then Throws
          else Null),
      join = (\<lambda>d n. d @ ''/'' @ n),
      clock = (\<lambda>d. jan20)\<rparr>"

definition noOptions :: searchOptions where
  "noOptions =
     \<lparr>query = None, days = None, since = None, until = None, tools = None,
      filePattern = None, limit = None\<rparr>"

text \<open>
  The same directories listed in the other order: \<open>c.jsonl\<close> is read before
  \<open>a.jsonl\<close>.
\<close>

definition reorderedWorld :: world where
  "reorderedWorld =
     exampleWorld\<lparr>readdirSync := (\<lambda>p.
        if p = ''/sessions'' then Some [''notes.txt'', ''proj'']
        else if p = ''/sessions/proj''
        then Some [''e.jsonl'', ''d.jsonl'', ''c.jsonl'', ''README.md'', ''b.jsonl'', ''a.jsonl'']
        else None)\<rparr>"

text \<open>
  A database whose clock stands at midnight of 20 January 2025, asked for intervals of
  up to a year back.
\<close>

definition exampleDatabase :: database where
  "exampleDatabase =
     \<lparr>nowMinusDays = (\<lambda>n. case n of
          NaN \<Rightarrow> None
        | Num k \<Rightarrow> if 0 \<le> k \<and> k \<le> 366 then Some (jan20 - k * 86400000) else None)\<rparr>"

text \<open>A project directory with 101 logs of one and the same content.\<close>

definition manyNames :: "string list" where
  "manyNames = map (\<lambda>n. ''s'' @ replicate n (CHR ''x'') @ ''.jsonl'') [0..<101]"

definition manyWorld :: world where
  "manyWorld =
     \<lparr>readdirSync = (\<lambda>p.
          if p = ''/sessions'' then Some [''proj'']
          else if p = ''/sessions/proj'' then Some manyNames
          else None),
      statSync = (\<lambda>p. Some \<lparr>isDirectory = (p = ''/sessions/proj''), mtime = jan18\<rparr>),
      parseSessionFile = (\<lambda>p. Parsed schemaSession),
      join = (\<lambda>d n. d @ ''/'' @ n),
      clock = (\<lambda>d. jan20)\<rparr>"

section \<open>Auxiliary facts\<close>


lemma startsWith_iff: "startsWith s t \<longleftrightarrow> (\<exists>q. s = t @ q)"
  by (induction s t rule: startsWith.induct) auto

lemma includes_str_iff: "includes_str s t \<longleftrightarrow> (\<exists>p q. s = p @ t @ q)"
proof (induction s)
  case Nil
  then show ?case by auto
next
  case (Cons c s)
  show ?case
  proof
    assume "includes_str (c # s) t"
    then consider "startsWith (c # s) t" | "includes_str s t" by auto
    then show "\<exists>p q. c # s = p @ t @ q"
    proof cases
      case 1
      then obtain q where "c # s = t @ q" by (auto simp: startsWith_iff)
      then have "c # s = [] @ t @ q" by simp
      then show ?thesis by blast
    next
      case 2
      then obtain p q where "s = p @ t @ q" using Cons.IH by auto
      then have "c # s = (c # p) @ t @ q" by simp
      then show ?thesis by blast
    qed
  next
    assume "\<exists>p q. c # s = p @ t @ q"
    then obtain p q where pq: "c # s = p @ t @ q" by auto
    show "includes_str (c # s) t"
    proof (cases p)
      case Nil
      with pq have "startsWith (c # s) t" by (auto simp: startsWith_iff)
      then show ?thesis by simp
    next
      case (Cons d p')
      with pq have "s = p' @ t @ q" by simp
      then have "includes_str s t" using Cons.IH by blast
      then show ?thesis by simp
    qed
  qed
qed

lemma endsWith_iff: "endsWith s t \<longleftrightarrow> (\<exists>p. s = p @ t)"
proof -
  have "(\<exists>q. rev s = rev t @ q) \<longleftrightarrow> (\<exists>p. s = p @ t)"
  proof
    assume "\<exists>q. rev s = rev t @ q"
    then obtain q where "rev s = rev t @ q" by auto
    then have "rev (rev s) = rev (rev t @ q)" by simp
    then have "s = rev q @ t" by simp
    then show "\<exists>p. s = p @ t" by blast
  next
    assume "\<exists>p. s = p @ t"
    then obtain p where "s = p @ t" by auto
    then have "rev s = rev t @ rev p" by simp
    then show "\<exists>q. rev s = rev t @ q" by blast
  qed
  then show ?thesis by (simp add: endsWith_def startsWith_iff)
qed

lemma pushFiles_eq:
  "pushFiles w options files results = results @ List.map_filter (considerFile w options) files"
  by (induction files arbitrary: results) (auto simp: List.map_filter_simps split: option.splits)

lemma pushDirs_eq:
  "pushDirs w options dirs results =
     results @ concat (map (\<lambda>dir. List.map_filter (considerFile w options) (findSessionFiles w dir options)) dirs)"
  by (induction dirs arbitrary: results) (auto simp: pushFiles_eq)

lemma pushDirs_sound:
  "r \<in> set (pushDirs w options dirs []) \<Longrightarrow> \<exists>filePath. considerFile w options filePath = Some r"
  by (auto simp: pushDirs_eq List.map_filter_def)

lemma mset_insertBy: "mset (insertBy cmp a bs) = add_mset a (mset bs)"
  by (induction bs) auto

lemma mset_sortBy: "mset (sortBy cmp xs) = mset xs"
  by (induction xs) (auto simp: mset_insertBy)

lemma set_sortBy: "set (sortBy cmp xs) = set xs"
  using mset_sortBy [of cmp xs] by (metis set_mset_mset)

lemma length_sortBy: "length (sortBy cmp xs) = length xs"
  using mset_sortBy [of cmp xs] by (metis size_mset)

lemma set_slice0: "set (slice0 xs n) \<subseteq> set xs"
  by (auto simp: slice0_def dest: in_set_takeD)

lemma searchSessions_sound:
  assumes "r \<in> set (searchSessions w baseDir options)"
  shows "\<exists>filePath. considerFile w options filePath = Some r"
proof -
  from assms have "r \<in> set (sortBy compareResults (pushDirs w options (findSessionDirs w baseDir) []))"
    using set_slice0 by (fastforce simp: searchSessions_def Let_def)
  then have "r \<in> set (pushDirs w options (findSessionDirs w baseDir) [])"
    by (simp add: set_sortBy)
  then show ?thesis by (rule pushDirs_sound)
qed

lemma considerFile_SomeD:
  assumes "considerFile w options filePath = Some r"
  shows "\<exists>session.
           parseSessionFile w filePath = Parsed session
         \<and> userMessages session \<noteq> []
         \<and> matchesFilters session options
         \<and> userMessages r = userMessages session
         \<and> toolsUsed r = toolsUsed session
         \<and> filesFromToolCalls r = filesFromToolCalls session
         \<and> endedAt r = endedAt session
         \<and> transcriptPath r = filePath
         \<and> relevance r = (case query options of
                             Some q \<Rightarrow> if q \<noteq> [] then scoreRelevance session q else 1
                           | None \<Rightarrow> 1)
         \<and> (queryGiven options \<longrightarrow> relevance r \<noteq> 0)"
  using assms
  by (auto simp: considerFile_def Let_def parsedSession.defs searchResult.defs
           split: parseOutcome.splits if_splits)

subsection \<open>Characters\<close>

lemma toLowerChar_white: "isWhiteSpace (toLowerChar c) = isWhiteSpace c"
  by (auto simp: toLowerChar_def isWhiteSpace_def Let_def)

lemma toLowerChar_idem: "toLowerChar (toLowerChar c) = toLowerChar c"
  by (auto simp: toLowerChar_def Let_def)

lemma toLowerCase_idem: "toLowerCase (toLowerCase s) = toLowerCase s"
  by (simp add: toLowerCase_def toLowerChar_idem)

subsection \<open>Splitting\<close>

lemma split_ws_not_Nil: "split_ws s \<noteq> []"
  by (induction s) (auto split: list.splits)

lemma split_ws_white:
  "isWhiteSpace c \<Longrightarrow> split_ws (c # r) = [] # split_ws (dropWhile isWhiteSpace r)"
proof (induction r arbitrary: c)
  case Nil
  then show ?case by simp
next
  case (Cons d r)
  show ?case
  proof (cases "isWhiteSpace d")
    case True
    then have "split_ws (c # d # r) = split_ws (d # r)" using Cons.prems by simp
    also have "\<dots> = [] # split_ws (dropWhile isWhiteSpace r)" using Cons.IH [OF True] .
    finally show ?thesis using True by simp
  next
    case False
    then show ?thesis using Cons.prems by simp
  qed
qed

lemma split_ws_nonwhite:
  "\<not> isWhiteSpace c \<Longrightarrow> split_ws (c # r) = (c # hd (split_ws r)) # tl (split_ws r)"
  using split_ws_not_Nil [of r] by (cases "split_ws r") simp_all

lemma split_ws_run:
  "\<forall>c\<in>set p. \<not> isWhiteSpace c \<Longrightarrow> split_ws (p @ r) = (p @ hd (split_ws r)) # tl (split_ws r)"
proof (induction p)
  case Nil
  then show ?case using split_ws_not_Nil [of r] by simp
next
  case (Cons c p)
  then show ?case by (simp add: split_ws_nonwhite del: split_ws.simps)
qed

lemma split_ws_hd_white: "s = [] \<or> isWhiteSpace (hd s) \<Longrightarrow> hd (split_ws s) = []"
  by (cases s) (auto simp: split_ws_white simp del: split_ws.simps(2))

lemma filterBoolean_skip:
  "filterBoolean (split_ws s) = filterBoolean (split_ws (dropWhile isWhiteSpace s))"
  by (cases s) (simp_all add: split_ws_white filterBoolean_def del: split_ws.simps)

lemma filterBoolean_word:
  assumes "\<not> isWhiteSpace c"
  shows "filterBoolean (split_ws (c # r)) =
           (c # takeWhile (\<lambda>d. \<not> isWhiteSpace d) r)
             # filterBoolean (split_ws (dropWhile (\<lambda>d. \<not> isWhiteSpace d) r))"
proof -
  let ?p = "c # takeWhile (\<lambda>d. \<not> isWhiteSpace d) r"
  let ?rest = "dropWhile (\<lambda>d. \<not> isWhiteSpace d) r"
  have p: "\<forall>d\<in>set ?p. \<not> isWhiteSpace d"
    using assms by (auto dest: set_takeWhileD)
  have "?rest = [] \<or> isWhiteSpace (hd ?rest)"
    using hd_dropWhile [of "\<lambda>d. \<not> isWhiteSpace d" r] by auto
  then have h: "hd (split_ws ?rest) = []" by (rule split_ws_hd_white)
  then have rest: "split_ws ?rest = [] # tl (split_ws ?rest)"
    using split_ws_not_Nil [of ?rest] by (cases "split_ws ?rest") simp_all
  have "c # r = ?p @ ?rest" by simp
  then have "split_ws (c # r) = (?p @ hd (split_ws ?rest)) # tl (split_ws ?rest)"
    using split_ws_run [OF p, of ?rest] by simp
  then have "filterBoolean (split_ws (c # r)) = ?p # filterBoolean (tl (split_ws ?rest))"
    using h by (simp add: filterBoolean_def)
  moreover have "filterBoolean (split_ws ?rest) = filterBoolean (tl (split_ws ?rest))"
    by (subst rest) (simp add: filterBoolean_def)
  ultimately show ?thesis by simp
qed

lemma spec_tokens_Nil: "dropWhile isWhiteSpace s = [] \<Longrightarrow> spec_tokens s = []"
  by (subst spec_tokens.simps) (simp only: list.case)

lemma spec_tokens_Cons:
  "dropWhile isWhiteSpace s = c # r \<Longrightarrow>
   spec_tokens s =
     (c # takeWhile (\<lambda>d. \<not> isWhiteSpace d) r)
       # spec_tokens (dropWhile (\<lambda>d. \<not> isWhiteSpace d) r)"
  by (subst spec_tokens.simps) (simp only: list.case)

lemma tokens_refine: "filterBoolean (split_ws s) = spec_tokens s"
proof (induction s rule: spec_tokens.induct)
  case (1 s)
  show ?case
  proof (cases "dropWhile isWhiteSpace s")
    case Nil
    have "filterBoolean (split_ws s) = filterBoolean (split_ws [])"
      using filterBoolean_skip [of s] Nil by simp
    then show ?thesis using spec_tokens_Nil [OF Nil] by (simp add: filterBoolean_def)
  next
    case (Cons c r)
    then have nw: "\<not> isWhiteSpace c" using hd_dropWhile [of isWhiteSpace s] by auto
    let ?rest = "dropWhile (\<lambda>d. \<not> isWhiteSpace d) r"
    have IH: "filterBoolean (split_ws ?rest) = spec_tokens ?rest"
      using "1.IH" Cons by simp
    have "filterBoolean (split_ws s) = filterBoolean (split_ws (c # r))"
      using filterBoolean_skip [of s] Cons by simp
    also have "\<dots> = (c # takeWhile (\<lambda>d. \<not> isWhiteSpace d) r) # spec_tokens ?rest"
      using filterBoolean_word [OF nw, of r] IH by simp
    also have "\<dots> = spec_tokens s"
      using spec_tokens_Cons [OF Cons] by simp
    finally show ?thesis .
  qed
qed

lemma tokens_white: "\<forall>c\<in>set s. isWhiteSpace c \<Longrightarrow> spec_tokens s = []"
proof -
  assume "\<forall>c\<in>set s. isWhiteSpace c"
  then have "dropWhile isWhiteSpace s = []" by simp
  then show ?thesis by (rule spec_tokens_Nil)
qed

lemma spec_tokens_map_lower:
  "spec_tokens (toLowerCase s) = map toLowerCase (spec_tokens s)"
proof (induction s rule: spec_tokens.induct)
  case (1 s)
  have dw: "dropWhile isWhiteSpace (map toLowerChar s) = map toLowerChar (dropWhile isWhiteSpace s)"
    by (simp add: dropWhile_map comp_def toLowerChar_white)
  show ?case
  proof (cases "dropWhile isWhiteSpace s")
    case Nil
    have "dropWhile isWhiteSpace (toLowerCase s) = []"
      unfolding toLowerCase_def dw Nil by simp
    then have "spec_tokens (toLowerCase s) = []" by (rule spec_tokens_Nil)
    moreover have "spec_tokens s = []"
      using Nil by (rule spec_tokens_Nil)
    ultimately show ?thesis by simp
  next
    case (Cons c r)
    have tw: "takeWhile (\<lambda>d. \<not> isWhiteSpace d) (map toLowerChar r) =
                map toLowerChar (takeWhile (\<lambda>d. \<not> isWhiteSpace d) r)"
      by (simp add: takeWhile_map comp_def toLowerChar_white)
    have dw2: "dropWhile (\<lambda>d. \<not> isWhiteSpace d) (map toLowerChar r) =
                map toLowerChar (dropWhile (\<lambda>d. \<not> isWhiteSpace d) r)"
      by (simp add: dropWhile_map comp_def toLowerChar_white)
    have IH: "spec_tokens (toLowerCase (dropWhile (\<lambda>d. \<not> isWhiteSpace d) r)) =
                map toLowerCase (spec_tokens (dropWhile (\<lambda>d. \<not> isWhiteSpace d) r))"
      using "1.IH" Cons by simp
    have "dropWhile isWhiteSpace (toLowerCase s) = toLowerChar c # map toLowerChar r"
      unfolding toLowerCase_def dw Cons by simp
    then have "spec_tokens (toLowerCase s) =
            (toLowerChar c # takeWhile (\<lambda>d. \<not> isWhiteSpace d) (map toLowerChar r))
              # spec_tokens (dropWhile (\<lambda>d. \<not> isWhiteSpace d) (map toLowerChar r))"
      by (rule spec_tokens_Cons)
    also have "\<dots> = map toLowerCase
                      ((c # takeWhile (\<lambda>d. \<not> isWhiteSpace d) r)
                         # spec_tokens (dropWhile (\<lambda>d. \<not> isWhiteSpace d) r))"
      using IH tw dw2 by (simp add: toLowerCase_def)
    also have "\<dots> = map toLowerCase (spec_tokens s)"
      using spec_tokens_Cons [OF Cons] by simp
    finally show ?thesis .
  qed
qed

subsection \<open>Scoring\<close>

lemma includes_str_sublist: "includes_str s t = sublist t s"
  by (auto simp: includes_str_iff sublist_def)

lemma scoreTerms_eq:
  "scoreTerms weight text terms score =
     score + weight * int (length (filter (\<lambda>t. includes_str text t) terms))"
  by (induction terms arbitrary: score) (simp_all add: algebra_simps)

lemma scoreField_eq:
  "scoreField weight texts terms score =
     score + weight * (\<Sum>text\<leftarrow>texts. int (length (filter (\<lambda>t. includes_str (toLowerCase text) t) terms)))"
  by (induction texts arbitrary: score) (simp_all add: scoreTerms_eq algebra_simps)

lemma spec_hits_lower:
  assumes "\<forall>t\<in>set terms. toLowerCase t = t"
  shows "int (spec_hits terms texts) =
           (\<Sum>text\<leftarrow>texts. int (length (filter (\<lambda>t. includes_str (toLowerCase text) t) terms)))"
proof -
  have "filter (\<lambda>term. spec_matches term x) terms =
          filter (\<lambda>t. includes_str (toLowerCase x) t) terms" for x
    using assms by (intro filter_cong) (simp_all add: spec_matches_def includes_str_sublist)
  then show ?thesis
    by (simp add: spec_hits_def sum_list_of_nat [symmetric] o_def)
qed

lemma scoreRelevance_spec:
  assumes "qry \<noteq> []"
  shows "scoreRelevance session qry = spec_score session qry"
proof -
  let ?terms = "filterBoolean (split_ws (toLowerCase qry))"
  have terms: "?terms = map toLowerCase (spec_tokens qry)"
    by (simp add: tokens_refine spec_tokens_map_lower)
  then have low: "\<forall>t\<in>set ?terms. toLowerCase t = t"
    by (auto simp: toLowerCase_idem)
  show ?thesis
    using assms spec_hits_lower [OF low]
    by (simp add: scoreRelevance_def spec_score_def Let_def scoreField_eq terms [symmetric])
qed

lemma scoreRelevance_nonneg: "0 \<le> scoreRelevance session qry"
proof (cases "qry = []")
  case True
  then show ?thesis by (simp add: scoreRelevance_def)
next
  case False
  then show ?thesis by (simp add: scoreRelevance_spec spec_score_def Let_def)
qed

lemma tokens_email: "map toLowerCase (spec_tokens ''email'') = [''email'']"
  by code_simp

lemma tokens_database: "map toLowerCase (spec_tokens ''database'') = [''database'']"
  by code_simp

lemma hits_email:
  "spec_hits [''email''] [''Let's build an email filter'', ''Yes, ship it''] = 1"
  by code_simp

lemma hits_database:
  "spec_hits [''database''] [''Let's build an email filter'', ''Yes, ship it''] = 0"
  "spec_hits [''database''] [''Edit'', ''Bash''] = 0"
  by code_simp+

lemma spec_hits_none:
  "\<forall>text\<in>set texts. \<forall>term\<in>set terms. \<not> spec_matches term text \<Longrightarrow> spec_hits terms texts = 0"
  by (induction texts) (simp_all add: spec_hits_def)

subsection \<open>Sorting\<close>

lemma compareResults_le: "compareResults a b \<le> 0 \<longleftrightarrow> spec_precedes a b"
  by (auto simp: compareResults_def spec_precedes_def orZero_def)

lemma spec_precedes_total: "\<not> spec_precedes a b \<Longrightarrow> spec_precedes b a"
  by (auto simp: spec_precedes_def)

lemma spec_precedes_trans: "spec_precedes a b \<Longrightarrow> spec_precedes b c \<Longrightarrow> spec_precedes a c"
  by (auto simp: spec_precedes_def)

lemma set_insertBy: "set (insertBy cmp a bs) = insert a (set bs)"
  using mset_insertBy [of cmp a bs] by (metis set_mset_mset set_mset_add_mset_insert)

lemma sorted_insertBy:
  "sorted_wrt spec_precedes bs \<Longrightarrow> sorted_wrt spec_precedes (insertBy compareResults a bs)"
proof (induction bs)
  case Nil
  then show ?case by simp
next
  case (Cons b bs)
  show ?case
  proof (cases "compareResults a b \<le> 0")
    case True
    then have ab: "spec_precedes a b" by (simp add: compareResults_le)
    have "\<forall>c\<in>set bs. spec_precedes a c"
      using Cons.prems ab by (auto intro: spec_precedes_trans)
    then show ?thesis using True ab Cons.prems by simp
  next
    case False
    then have "spec_precedes b a"
      by (simp add: compareResults_le spec_precedes_total)
    then show ?thesis using False Cons by (simp add: set_insertBy)
  qed
qed

lemma sorted_sortBy: "sorted_wrt spec_precedes (sortBy compareResults xs)"
  by (induction xs) (simp_all add: sorted_insertBy)

lemma sorted_slice0: "sorted_wrt P xs \<Longrightarrow> sorted_wrt P (slice0 xs n)"
  by (simp add: slice0_def sorted_wrt_take)

lemma searchSessions_sorted: "sorted_wrt spec_precedes (searchSessions w baseDir options)"
  by (simp add: searchSessions_def Let_def sorted_slice0 sorted_sortBy)

lemma map_slice0: "map f (slice0 xs n) = slice0 (map f xs) n"
  by (simp add: slice0_def take_map)

text \<open>The key of the order as a pair in the lexicographic order on pairs of integers.\<close>

lemma spec_precedes_lex:
  "spec_precedes a b \<longleftrightarrow> (- relevance a, - endedAt a) \<le> (- relevance b, - endedAt b)"
  by (auto simp: spec_precedes_def less_eq_prod_def)

lemma keys_of_sortBy:
  "map (\<lambda>r. (- relevance r, - endedAt r)) (sortBy compareResults xs) =
     sort (map (\<lambda>r. (- relevance r, - endedAt r)) xs)"
proof -
  let ?k = "\<lambda>r :: searchResult. (- relevance r, - endedAt r)"
  have "sorted_wrt (\<lambda>a b. ?k a \<le> ?k b) (sortBy compareResults xs)"
    using sorted_sortBy [of xs] by (simp add: spec_precedes_lex [abs_def])
  then have srt: "sorted (map ?k (sortBy compareResults xs))"
    by (simp add: sorted_wrt_map)
  have ms: "mset (map ?k (sortBy compareResults xs)) = mset (map ?k xs)"
    by (simp add: mset_sortBy)
  show ?thesis by (rule properties_for_sort [OF ms srt, symmetric])
qed

lemma spec_keys_of_sortBy:
  assumes "mset xs = mset ys"
  shows "map spec_key (sortBy compareResults xs) = map spec_key (sortBy compareResults ys)"
proof -
  let ?k = "\<lambda>r :: searchResult. (- relevance r, - endedAt r)"
  have "mset (sort (map ?k ys)) = mset (map ?k xs)"
    using assms by simp
  then have "sort (map ?k xs) = sort (map ?k ys)"
    by (rule properties_for_sort) simp
  then have "map ?k (sortBy compareResults xs) = map ?k (sortBy compareResults ys)"
    by (simp add: keys_of_sortBy)
  then have "map (\<lambda>(a, b). (- a, - b)) (map ?k (sortBy compareResults xs)) =
             map (\<lambda>(a, b). (- a, - b)) (map ?k (sortBy compareResults ys))"
    by simp
  then show ?thesis by (simp add: spec_key_def [abs_def] o_def)
qed

subsection \<open>What a result of searchSessions is\<close>

lemma searchSessions_relevance:
  assumes "r \<in> set (searchSessions w baseDir options)"
  shows "relevance r = (case query options of
                          Some q \<Rightarrow> if q \<noteq> [] then scoreRelevance r q else 1
                        | None \<Rightarrow> 1)"
    and "queryGiven options \<Longrightarrow> relevance r \<noteq> 0"
    and "userMessages r \<noteq> []"
    and "matchesFilters r options"
proof -
  from searchSessions_sound [OF assms] obtain filePath
    where "considerFile w options filePath = Some r" by auto
  from considerFile_SomeD [OF this] obtain session :: parsedSession where
    s: "userMessages session \<noteq> []" "matchesFilters session options"
       "relevance r = (case query options of Some q \<Rightarrow> if q \<noteq> [] then scoreRelevance session q else 1 | None \<Rightarrow> 1)"
       "queryGiven options \<longrightarrow> relevance r \<noteq> 0"
    and f: "userMessages r = userMessages session" "toolsUsed r = toolsUsed session"
       "filesFromToolCalls r = filesFromToolCalls session"
    by blast
  from f
  have "scoreRelevance r q = scoreRelevance session q" for q
    by (simp add: scoreRelevance_def)
  then show "relevance r = (case query options of
                          Some q \<Rightarrow> if q \<noteq> [] then scoreRelevance r q else 1
                        | None \<Rightarrow> 1)"
    using s(3) by (simp split: option.splits)
  show "queryGiven options \<Longrightarrow> relevance r \<noteq> 0" using s(4) by simp
  show "userMessages r \<noteq> []" using s(1) f by simp
  show "matchesFilters r options"
    using s(2) f by (auto simp: matchesFilters_def split: option.splits if_splits)
qed

subsection \<open>The concrete corpus, evaluated\<close>

lemma example_listing:
  "map (\<lambda>r. (parsedSession.id r, relevance r, endedAt r))
       (searchSessions exampleWorld ''/sessions'' noOptions) =
     [(''b'', 1, 1737158400000), (''c'', 1, 1736899200000), (''a'', 1, 1736467200000)]"
  by code_simp

lemma example_email:
  "map (\<lambda>r. (parsedSession.id r, relevance r, endedAt r))
       (searchSessions exampleWorld ''/sessions'' (noOptions\<lparr>query := Some ''email''\<rparr>)) =
     [(''c'', 10, 1736899200000), (''a'', 10, 1736467200000)]"
  by code_simp

lemma example_email_reordered:
  "map (\<lambda>r. (parsedSession.id r, relevance r, endedAt r))
       (searchSessions reorderedWorld ''/sessions'' (noOptions\<lparr>query := Some ''email''\<rparr>)) =
     [(''c'', 10, 1736899200000), (''a'', 10, 1736467200000)]"
  by code_simp

lemma example_candidates:
  "pushDirs exampleWorld (noOptions\<lparr>query := Some ''email''\<rparr>)
     (findSessionDirs exampleWorld ''/sessions'') [] =
   [parsedSession.extend emailSession (searchResult.fields 10 ''/sessions/proj/a.jsonl''),
    parsedSession.extend mailSession (searchResult.fields 10 ''/sessions/proj/c.jsonl'')]"
  by code_simp

lemma example_candidates_reordered:
  "pushDirs reorderedWorld (noOptions\<lparr>query := Some ''email''\<rparr>)
     (findSessionDirs reorderedWorld ''/sessions'') [] =
   [parsedSession.extend mailSession (searchResult.fields 10 ''/sessions/proj/c.jsonl''),
    parsedSession.extend emailSession (searchResult.fields 10 ''/sessions/proj/a.jsonl'')]"
  by code_simp

lemma example_blank_query:
  "set ''  '' = {CHR '' ''}" "isWhiteSpace (CHR '' '')"
  by (simp_all add: isWhiteSpace_def)

subsection \<open>The loop body and the filters\<close>

lemma searchSessions_origin:
  assumes "r \<in> set (searchSessions w baseDir options)"
  shows "\<exists>session. parseSessionFile w (transcriptPath r) = Parsed session
           \<and> userMessages session = userMessages r"
proof -
  from searchSessions_sound [OF assms] obtain filePath
    where "considerFile w options filePath = Some r" by auto
  from considerFile_SomeD [OF this] show ?thesis by auto
qed

lemma considerFile_empty_messages:
  "parseSessionFile w filePath = Parsed session \<Longrightarrow> userMessages session = [] \<Longrightarrow>
   considerFile w options filePath = None"
  by (simp add: considerFile_def)

lemma considerFile_zero_score:
  "parseSessionFile w filePath = Parsed session \<Longrightarrow> query options = Some q \<Longrightarrow> q \<noteq> [] \<Longrightarrow>
   scoreRelevance session q = 0 \<Longrightarrow> considerFile w options filePath = None"
  by (simp add: considerFile_def queryGiven_def)

lemma spec_score_no_tokens: "spec_tokens q = [] \<Longrightarrow> spec_score session q = 0"
  by (simp add: spec_score_def spec_hits_def)

lemma list_ex_includes:
  "list_ex (\<lambda>t. includes_str (toLowerCase t) (toLowerCase pat)) texts \<longleftrightarrow>
     (\<exists>t\<in>set texts. spec_matches pat t)"
  by (simp add: list_ex_iff spec_matches_def includes_str_sublist)

lemma matchesFilters_iff:
  "matchesFilters session options \<longleftrightarrow>
     (case tools options of
        Some ts \<Rightarrow> ts = [] \<or> (\<exists>tool\<in>set ts. \<exists>t\<in>set (toolsUsed session). spec_matches tool t)
      | None \<Rightarrow> True)
   \<and> (case filePattern options of
        Some fp \<Rightarrow> fp = [] \<or> (\<exists>f\<in>set (filesFromToolCalls session). spec_matches fp f)
      | None \<Rightarrow> True)"
  by (auto simp: matchesFilters_def list_ex_includes list_ex_iff split: option.splits)

lemma spec_matches_Edit: "spec_matches ''edit'' ''Edit''"
  by code_simp

lemma email_scores:
  "scoreRelevance emailSession ''email'' = 10"
  "scoreRelevance emailSession ''database'' = 0"
  by code_simp+

lemma email_no_database_file:
  "filesFromToolCalls emailSession = []"
  "userMessages emailSession = [''Let's build an email filter'', ''Yes, ship it'']"
  "toolsUsed emailSession = [''Edit'', ''Bash'']"
  by (simp_all add: emailSession_def mkSession_def)

lemma considerFile_Some:
  assumes "parseSessionFile w filePath = Parsed session"
    and "userMessages session \<noteq> []"
    and "matchesFilters session options"
    and "query options = Some q" and "q \<noteq> []"
    and "scoreRelevance session q \<noteq> 0"
  shows "\<exists>r. considerFile w options filePath = Some r \<and> relevance r = scoreRelevance session q"
  using assms
  by (simp add: considerFile_def queryGiven_def Let_def parsedSession.defs searchResult.defs)

lemma scenario_email:
  assumes "userMessages session = [''Let's build an email filter'', ''Yes, ship it'']"
  shows "10 \<le> scoreRelevance session ''email''"
proof -
  have "scoreRelevance session ''email'' = spec_score session ''email''"
    by (simp add: scoreRelevance_spec)
  also have "\<dots> = 10 * int (spec_hits [''email''] (userMessages session))
                  + 3 * int (spec_hits [''email''] (toolsUsed session))
                  + 3 * int (spec_hits [''email''] (filesFromToolCalls session))"
    by (simp only: spec_score_def Let_def tokens_email)
  finally show ?thesis using assms by (simp add: hits_email)
qed

lemma scenario_database:
  assumes "userMessages session = [''Let's build an email filter'', ''Yes, ship it'']"
    and "toolsUsed session = [''Edit'', ''Bash'']"
    and "\<forall>f\<in>set (filesFromToolCalls session). \<not> spec_matches ''database'' f"
  shows "scoreRelevance session ''database'' = 0"
proof -
  have "scoreRelevance session ''database'' = spec_score session ''database''"
    by (simp add: scoreRelevance_spec)
  also have "\<dots> = 10 * int (spec_hits [''database''] (userMessages session))
                  + 3 * int (spec_hits [''database''] (toolsUsed session))
                  + 3 * int (spec_hits [''database''] (filesFromToolCalls session))"
    by (simp only: spec_score_def Let_def tokens_database)
  also have "\<dots> = 0"
    using assms by (simp add: hits_database spec_hits_none)
  finally show ?thesis .
qed

subsection \<open>Order and keys of the results\<close>

lemma sorted_wrt_nth:
  "sorted_wrt P xs \<Longrightarrow> i < j \<Longrightarrow> j < length xs \<Longrightarrow> P (xs ! i) (xs ! j)"
  by (simp add: sorted_wrt_iff_nth_less)

lemma searchSessions_keys:
  assumes "mset (pushDirs w options (findSessionDirs w baseDir) []) =
           mset (pushDirs w' options (findSessionDirs w' baseDir') [])"
  shows "map spec_key (searchSessions w baseDir options) =
         map spec_key (searchSessions w' baseDir' options)"
  using spec_keys_of_sortBy [OF assms]
  by (simp add: searchSessions_def Let_def map_slice0)

lemma searchSessions_no_query:
  assumes "\<not> queryGiven options" and "r \<in> set (searchSessions w baseDir options)"
  shows "relevance r = 1"
  using searchSessions_relevance(1) [OF assms(2)] assms(1)
  by (simp add: queryGiven_def split: option.splits if_splits)

subsection \<open>The limit\<close>

lemma searchSessions_slice:
  "searchSessions w baseDir options =
     slice0 (sortBy compareResults (pushDirs w options (findSessionDirs w baseDir) []))
            (limitOrDefault options)"
  by (simp add: searchSessions_def Let_def)

lemma slice0_pos: "0 \<le> n \<Longrightarrow> slice0 xs n = take (nat n) xs"
  by (simp add: slice0_def)

lemma scanEntries_all:
  assumes "\<forall>f\<in>set names. endsWith f ''.jsonl'' \<and> (\<exists>st. statSync w (join w dir f) = Some st)"
  shows "scanEntries w dir None None names files = files @ map (join w dir) names"
  using assms by (induction names arbitrary: files) (auto simp: Let_def)

lemma length_map_filter_all:
  "\<forall>x\<in>set xs. f x \<noteq> None \<Longrightarrow> length (List.map_filter f xs) = length xs"
  by (induction xs) (auto simp: List.map_filter_simps split: option.splits)

lemma manyNames_jsonl: "\<forall>f\<in>set manyNames. endsWith f ''.jsonl''"
proof
  fix f assume "f \<in> set manyNames"
  then obtain n where "f = (''s'' @ replicate n (CHR ''x'')) @ ''.jsonl''"
    by (auto simp: manyNames_def)
  then show "endsWith f ''.jsonl''" unfolding endsWith_iff by blast
qed

lemma manyWorld_files:
  "findSessionFiles manyWorld ''/sessions/proj'' (noOptions\<lparr>limit := Some 500\<rparr>) =
     map (\<lambda>n. ''/sessions/proj'' @ ''/'' @ n) manyNames"
proof -
  have "\<forall>f\<in>set manyNames. endsWith f ''.jsonl''
          \<and> (\<exists>st. statSync manyWorld (join manyWorld ''/sessions/proj'' f) = Some st)"
    using manyNames_jsonl by (simp add: manyWorld_def)
  from scanEntries_all [OF this, of "[]"] show ?thesis
    by (simp add: findSessionFiles_def sinceCutoff_def noOptions_def manyWorld_def)
qed

lemma manyWorld_considerFile:
  "considerFile manyWorld (noOptions\<lparr>limit := Some 500\<rparr>) p \<noteq> None"
  by (simp add: considerFile_def manyWorld_def noOptions_def matchesFilters_def queryGiven_def
        schemaSession_def mkSession_def)

lemma manyWorld_candidates:
  "length (pushDirs manyWorld (noOptions\<lparr>limit := Some 500\<rparr>)
            (findSessionDirs manyWorld ''/sessions'') []) = 101"
proof -
  have "findSessionDirs manyWorld ''/sessions'' = [''/sessions/proj'']"
    by (simp add: findSessionDirs_def manyWorld_def)
  then show ?thesis
    by (simp add: pushDirs_eq manyWorld_files length_map_filter_all manyWorld_considerFile)
       (simp add: manyNames_def)
qed

lemma apiLimit_le: "apiLimit limitStr = Some m \<Longrightarrow> m \<le> 100"
  by (auto simp: apiLimit_def split: option.splits)

lemma apiLimit_absent: "apiLimit None = Some 20"
  by code_simp

lemma apiLimit_examples:
  "apiLimit (Some ''500'') = Some 100" "apiLimit (Some ''0'') = Some 0"
  "apiLimit (Some ''7'') = Some 7"
  by code_simp+

subsection \<open>The date window\<close>

lemma scanEntries_sound:
  "path \<in> set (scanEntries w dir snc unt names files) \<Longrightarrow>
   path \<in> set files \<or>
   (\<exists>f\<in>set names. \<exists>st. endsWith f ''.jsonl'' \<and> path = join w dir f
      \<and> statSync w path = Some st
      \<and> (\<forall>s. snc = Some (Date s) \<longrightarrow> s \<le> mtime st)
      \<and> (\<forall>u. unt = Some (Date u) \<longrightarrow> mtime st \<le> u))"
proof (induction names arbitrary: files)
  case Nil
  then show ?case by simp
next
  case (Cons entry rest)
  show ?case
  proof (cases "endsWith entry ''.jsonl''")
    case False
    then show ?thesis using Cons.IH [of files] Cons.prems by auto
  next
    case True
    show ?thesis
    proof (cases "statSync w (join w dir entry)")
      case None
      then show ?thesis using True Cons.prems by simp
    next
      case (Some st)
      show ?thesis
      proof (cases "(case snc of Some s \<Rightarrow> timeBefore (mtime st) s | None \<Rightarrow> False)
                    \<or> (case unt of Some u \<Rightarrow> timeAfter (mtime st) u | None \<Rightarrow> False)")
        case True
        then have "scanEntries w dir snc unt (entry # rest) files = scanEntries w dir snc unt rest files"
          using \<open>endsWith entry ''.jsonl''\<close> Some by (auto simp: Let_def)
        then show ?thesis using Cons.IH [of files] Cons.prems by auto
      next
        case False
        then have "scanEntries w dir snc unt (entry # rest) files =
                     scanEntries w dir snc unt rest (files @ [join w dir entry])"
          using \<open>endsWith entry ''.jsonl''\<close> Some by (auto simp: Let_def)
        then have "path \<in> set (scanEntries w dir snc unt rest (files @ [join w dir entry]))"
          using Cons.prems by simp
        from Cons.IH [OF this] show ?thesis
          using False Some \<open>endsWith entry ''.jsonl''\<close>
          by (auto simp: timeBefore_def timeAfter_def split: option.splits date.splits)
      qed
    qed
  qed
qed

lemma scanEntries_keeps: "set files \<subseteq> set (scanEntries w dir snc unt names files)"
proof (induction names arbitrary: files)
  case Nil
  then show ?case by simp
next
  case (Cons entry rest)
  have "set files \<subseteq> set (scanEntries w dir snc unt rest files)"
    and "set files \<subseteq> set (scanEntries w dir snc unt rest (files @ [join w dir entry]))"
    using Cons.IH [of files] Cons.IH [of "files @ [join w dir entry]"] by auto
  then show ?case by (auto simp: Let_def split: option.splits)
qed

lemma scanEntries_complete:
  assumes "\<forall>f\<in>set names. endsWith f ''.jsonl'' \<longrightarrow> statSync w (join w dir f) \<noteq> None"
    and "f \<in> set names" and "endsWith f ''.jsonl''"
    and "statSync w (join w dir f) = Some st"
    and "\<forall>s. snc = Some (Date s) \<longrightarrow> s \<le> mtime st"
    and "\<forall>u. unt = Some (Date u) \<longrightarrow> mtime st \<le> u"
  shows "join w dir f \<in> set (scanEntries w dir snc unt names files)"
  using assms(1,2)
proof (induction names arbitrary: files)
  case Nil
  then show ?case by simp
next
  case (Cons entry rest)
  show ?case
  proof (cases "entry = f")
    case True
    have "scanEntries w dir snc unt (entry # rest) files =
            scanEntries w dir snc unt rest (files @ [join w dir f])"
      using True assms(3-6)
      by (auto simp: Let_def timeBefore_def timeAfter_def split: option.splits date.splits)
    then show ?thesis
      using scanEntries_keeps [of "files @ [join w dir f]" w dir snc unt rest] by auto
  next
    case False
    then have f: "f \<in> set rest" using Cons.prems by simp
    have ok: "\<forall>g\<in>set rest. endsWith g ''.jsonl'' \<longrightarrow> statSync w (join w dir g) \<noteq> None"
      using Cons.prems by simp
    have "join w dir f \<in> set (scanEntries w dir snc unt rest fs)" for fs
      using Cons.IH [OF ok f] .
    moreover have "endsWith entry ''.jsonl'' \<Longrightarrow> statSync w (join w dir entry) \<noteq> None"
      using Cons.prems by simp
    ultimately show ?thesis by (auto simp: Let_def split: option.splits)
  qed
qed

lemma findSessionFiles_sound:
  assumes "path \<in> set (findSessionFiles w dir options)"
  shows "\<exists>st. statSync w path = Some st
           \<and> (\<forall>s. sinceCutoff options (clock w dir) = Some (Date s) \<longrightarrow> s \<le> mtime st)
           \<and> (\<forall>u. until options = Some (Date u) \<longrightarrow> mtime st \<le> u)"
proof (cases "readdirSync w dir")
  case None
  then show ?thesis using assms by (simp add: findSessionFiles_def)
next
  case (Some names)
  then have "path \<in> set (scanEntries w dir (sinceCutoff options (clock w dir)) (until options) names [])"
    using assms by (simp add: findSessionFiles_def Let_def)
  from scanEntries_sound [OF this] show ?thesis by auto
qed

lemma findSessionFiles_iff:
  assumes "readdirSync w dir = Some names"
    and "\<forall>f\<in>set names. endsWith f ''.jsonl'' \<longrightarrow> statSync w (join w dir f) \<noteq> None"
  shows "path \<in> set (findSessionFiles w dir options) \<longleftrightarrow>
           (\<exists>f\<in>set names. \<exists>st. endsWith f ''.jsonl'' \<and> path = join w dir f
              \<and> statSync w path = Some st
              \<and> (\<forall>s. sinceCutoff options (clock w dir) = Some (Date s) \<longrightarrow> s \<le> mtime st)
              \<and> (\<forall>u. until options = Some (Date u) \<longrightarrow> mtime st \<le> u))"
proof -
  let ?snc = "sinceCutoff options (clock w dir)"
  have eq: "findSessionFiles w dir options = scanEntries w dir ?snc (until options) names []"
    using assms(1) by (simp add: findSessionFiles_def Let_def)
  show ?thesis
  proof
    assume "path \<in> set (findSessionFiles w dir options)"
    then have "path \<in> set (scanEntries w dir ?snc (until options) names [])" by (simp add: eq)
    from scanEntries_sound [OF this]
    show "\<exists>f\<in>set names. \<exists>st. endsWith f ''.jsonl'' \<and> path = join w dir f
              \<and> statSync w path = Some st
              \<and> (\<forall>s. ?snc = Some (Date s) \<longrightarrow> s \<le> mtime st)
              \<and> (\<forall>u. until options = Some (Date u) \<longrightarrow> mtime st \<le> u)"
      by simp
  next
    assume "\<exists>f\<in>set names. \<exists>st. endsWith f ''.jsonl'' \<and> path = join w dir f
              \<and> statSync w path = Some st
              \<and> (\<forall>s. ?snc = Some (Date s) \<longrightarrow> s \<le> mtime st)
              \<and> (\<forall>u. until options = Some (Date u) \<longrightarrow> mtime st \<le> u)"
    then obtain f st where f: "f \<in> set names" "endsWith f ''.jsonl''" "path = join w dir f"
      "statSync w (join w dir f) = Some st" "\<forall>s. ?snc = Some (Date s) \<longrightarrow> s \<le> mtime st"
      "\<forall>u. until options = Some (Date u) \<longrightarrow> mtime st \<le> u"
      by auto
    show "path \<in> set (findSessionFiles w dir options)"
      unfolding eq f(3)
      by (rule scanEntries_complete [OF assms(2) f(1,2,4,5,6)])
  qed
qed

lemma pushDirs_origin:
  assumes "r \<in> set (pushDirs w options dirs [])"
  shows "\<exists>dir\<in>set dirs. \<exists>path\<in>set (findSessionFiles w dir options).
           considerFile w options path = Some r"
  using assms by (auto simp: pushDirs_eq List.map_filter_def) blast

lemma searchSessions_file_window:
  assumes "r \<in> set (searchSessions w baseDir options)"
  shows "\<exists>dir st. statSync w (transcriptPath r) = Some st
           \<and> (\<forall>s. sinceCutoff options (clock w dir) = Some (Date s) \<longrightarrow> s \<le> mtime st)
           \<and> (\<forall>u. until options = Some (Date u) \<longrightarrow> mtime st \<le> u)"
proof -
  from assms have "r \<in> set (pushDirs w options (findSessionDirs w baseDir) [])"
    using set_slice0 by (fastforce simp: searchSessions_def Let_def set_sortBy)
  from pushDirs_origin [OF this] obtain dir path where
    p: "path \<in> set (findSessionFiles w dir options)" "considerFile w options path = Some r"
    by auto
  have "transcriptPath r = path" using considerFile_SomeD [OF p(2)] by auto
  then show ?thesis using findSessionFiles_sound [OF p(1)] by auto
qed

lemma sinceCutoff_explicit: "since options = Some s \<Longrightarrow> sinceCutoff options now = Some s"
  by (simp add: sinceCutoff_def)

lemma sinceCutoff_days:
  "since options = None \<Longrightarrow> days options = Some n \<Longrightarrow> n \<noteq> 0 \<Longrightarrow>
   validTime (now - n * (24 * 60 * 60 * 1000)) \<Longrightarrow>
   sinceCutoff options now = Some (Date (now - n * (24 * 60 * 60 * 1000)))"
  by (simp add: sinceCutoff_def newDate_def mult.commute)

lemma sinceCutoff_valid:
  assumes "since options \<noteq> Some InvalidDate"
    and "since options = None \<longrightarrow>
           (\<forall>n. days options = Some n \<and> n \<noteq> 0 \<longrightarrow> validTime (now - n * (24 * 60 * 60 * 1000)))"
  shows "sinceCutoff options now \<noteq> Some InvalidDate"
  using assms
  by (auto simp: sinceCutoff_def newDate_def mult.commute split: option.splits if_splits)

lemma example_since_jan15:
  "map (\<lambda>r. (parsedSession.id r, endedAt r))
       (searchSessions exampleWorld ''/sessions'' (noOptions\<lparr>since := Some (Date jan15)\<rparr>)) =
     [(''b'', jan18), (''a'', jan10)]"
  by code_simp

lemma example_stats:
  "readdirSync exampleWorld ''/sessions/proj'' =
     Some [''a.jsonl'', ''b.jsonl'', ''README.md'', ''c.jsonl'', ''d.jsonl'', ''e.jsonl'']"
  "join exampleWorld d n = d @ ''/'' @ n"
  "statSync exampleWorld ''/sessions/proj/a.jsonl'' = Some \<lparr>isDirectory = False, mtime = jan18\<rparr>"
  "statSync exampleWorld ''/sessions/proj/b.jsonl'' = Some \<lparr>isDirectory = False, mtime = jan18\<rparr>"
  "statSync exampleWorld ''/sessions/proj/c.jsonl'' = Some \<lparr>isDirectory = False, mtime = jan10\<rparr>"
  "statSync exampleWorld ''/sessions/proj/d.jsonl'' = Some \<lparr>isDirectory = False, mtime = jan18\<rparr>"
  "statSync exampleWorld ''/sessions/proj/e.jsonl'' = Some \<lparr>isDirectory = False, mtime = jan18\<rparr>"
  "clock exampleWorld d = jan20"
  by (simp_all add: exampleWorld_def)

lemma example_jsonl:
  "endsWith ''a.jsonl'' ''.jsonl''" "endsWith ''b.jsonl'' ''.jsonl''"
  "endsWith ''c.jsonl'' ''.jsonl''" "endsWith ''d.jsonl'' ''.jsonl''"
  "endsWith ''e.jsonl'' ''.jsonl''" "\<not> endsWith ''README.md'' ''.jsonl''"
  by (simp_all add: endsWith_def)

text \<open>
  A cutoff beyond the range of dates and a \<open>since\<close> that is no date bound nothing:
  all five logs are returned.
\<close>

lemma example_days_out_of_range:
  "sinceCutoff (noOptions\<lparr>days := Some (- 100000000)\<rparr>) jan20 = Some InvalidDate"
  "findSessionFiles exampleWorld ''/sessions/proj'' (noOptions\<lparr>days := Some (- 100000000)\<rparr>) =
     [''/sessions/proj/a.jsonl'', ''/sessions/proj/b.jsonl'', ''/sessions/proj/c.jsonl'',
      ''/sessions/proj/d.jsonl'', ''/sessions/proj/e.jsonl'']"
  by code_simp+

lemma example_since_invalid:
  "findSessionFiles exampleWorld ''/sessions/proj''
     (noOptions\<lparr>days := Some 7, since := Some InvalidDate\<rparr>) =
     [''/sessions/proj/a.jsonl'', ''/sessions/proj/b.jsonl'', ''/sessions/proj/c.jsonl'',
      ''/sessions/proj/d.jsonl'', ''/sessions/proj/e.jsonl'']"
  by code_simp

lemma example_route:
  "nowMinusDays exampleDatabase (Num 7) = Some (jan20 - 7 * 86400000)"
  by (simp add: exampleDatabase_def)


section \<open>Properties of the search\<close>

text \<open>
  C1. Every result of \<open>searchSessions\<close> has at least one user message, and it is the
  record of a parsed session with these user messages: a session that the parser
  returns with no user message is in no result list.
\<close>

theorem searchSessions_userMessages_nonempty:
  assumes "r \<in> set (searchSessions w baseDir options)"
  shows "userMessages r \<noteq> []
       \<and> (\<exists>session. parseSessionFile w (transcriptPath r) = Parsed session
             \<and> userMessages session = userMessages r)"
  using searchSessions_relevance(3) [OF assms] searchSessions_origin [OF assms] by simp

theorem searchSessions_userMessages_nonempty_witness:
  "hd (searchSessions exampleWorld ''/sessions'' noOptions)
     \<in> set (searchSessions exampleWorld ''/sessions'' noOptions)
   \<and> userMessages (hd (searchSessions exampleWorld ''/sessions'' noOptions)) \<noteq> []"
proof -
  have "searchSessions exampleWorld ''/sessions'' noOptions \<noteq> []"
    using example_listing by auto
  then have h: "hd (searchSessions exampleWorld ''/sessions'' noOptions)
                  \<in> set (searchSessions exampleWorld ''/sessions'' noOptions)"
    by simp
  show ?thesis
    using h searchSessions_userMessages_nonempty [OF h] by simp
qed

text \<open>
  C2, counterexample. The file-based search has no ceiling of 100: out of a directory
  of 101 logs, a request with the limit 500 gets all 101 records.
\<close>

theorem searchSessions_limit_counterexample:
  "limit (noOptions\<lparr>limit := Some 500\<rparr>) = Some 500
   \<and> length (searchSessions manyWorld ''/sessions'' (noOptions\<lparr>limit := Some 500\<rparr>)) = 101
   \<and> \<not> length (searchSessions manyWorld ''/sessions'' (noOptions\<lparr>limit := Some 500\<rparr>)) \<le> 100"
proof -
  have "limitOrDefault (noOptions\<lparr>limit := Some 500\<rparr>) = 500"
    by (simp add: limitOrDefault_def)
  then have "length (searchSessions manyWorld ''/sessions'' (noOptions\<lparr>limit := Some 500\<rparr>)) = 101"
    by (simp add: searchSessions_slice slice0_pos length_sortBy manyWorld_candidates)
  then show ?thesis by simp
qed

text \<open>
  C2, as amended. \<open>searchSessions\<close> returns the first \<open>limit\<close> records of the sorted
  list when the requested limit is positive, with no ceiling on it, and the first 20
  when the limit is absent (or zero). The ceiling of 100 is that of the HTTP route
  alone: its limit is the smaller of the parsed parameter and 100, and 20 when the
  parameter is absent.
\<close>

theorem searchSessions_limit:
  "(limit options = Some n \<and> 0 < n \<longrightarrow>
      searchSessions w baseDir options =
        take (nat n) (sortBy compareResults (pushDirs w options (findSessionDirs w baseDir) []))
    \<and> length (searchSessions w baseDir options) =
        min (nat n) (length (pushDirs w options (findSessionDirs w baseDir) [])))
   \<and> (limit options = None \<or> limit options = Some 0 \<longrightarrow>
      searchSessions w baseDir options =
        take 20 (sortBy compareResults (pushDirs w options (findSessionDirs w baseDir) []))
    \<and> length (searchSessions w baseDir options) \<le> 20)
   \<and> apiLimit None = Some 20
   \<and> (apiLimit limitStr = Some m \<longrightarrow> m \<le> 100)
   \<and> (s \<noteq> [] \<and> parseInt10 s = Some k \<longrightarrow> apiLimit (Some s) = Some (min k 100))"
proof (intro conjI impI)
  assume a: "limit options = Some n \<and> 0 < n"
  then have l: "limitOrDefault options = n" by (simp add: limitOrDefault_def)
  show "searchSessions w baseDir options =
        take (nat n) (sortBy compareResults (pushDirs w options (findSessionDirs w baseDir) []))"
    using a l by (simp add: searchSessions_slice slice0_pos)
  then show "length (searchSessions w baseDir options) =
        min (nat n) (length (pushDirs w options (findSessionDirs w baseDir) []))"
    by (simp add: length_sortBy min.commute)
next
  assume a: "limit options = None \<or> limit options = Some 0"
  then have l: "limitOrDefault options = 20" by (auto simp: limitOrDefault_def)
  show "searchSessions w baseDir options =
        take 20 (sortBy compareResults (pushDirs w options (findSessionDirs w baseDir) []))"
    using l by (simp add: searchSessions_slice slice0_pos)
  then show "length (searchSessions w baseDir options) \<le> 20" by simp
next
  show "apiLimit None = Some 20" by (rule apiLimit_absent)
next
  assume "apiLimit limitStr = Some m"
  then show "m \<le> 100" by (rule apiLimit_le)
next
  assume "s \<noteq> [] \<and> parseInt10 s = Some k"
  then show "apiLimit (Some s) = Some (min k 100)" by (simp add: apiLimit_def)
qed

theorem searchSessions_limit_witness:
  "limit (noOptions\<lparr>limit := Some 500\<rparr>) = Some 500
   \<and> length (searchSessions manyWorld ''/sessions'' (noOptions\<lparr>limit := Some 500\<rparr>)) = 101
   \<and> limit noOptions = None
   \<and> length (searchSessions manyWorld ''/sessions'' noOptions) \<le> 20
   \<and> apiLimit (Some ''500'') = Some 100
   \<and> parseInt10 ''7'' = Some 7
   \<and> apiLimit (Some ''7'') = Some 7"
proof -
  have p: "parseInt10 ''7'' = Some 7" by code_simp
  have n: "limit noOptions = None" by (simp add: noOptions_def)
  show ?thesis
    using searchSessions_limit
            [of "noOptions\<lparr>limit := Some 500\<rparr>" 500 manyWorld "''/sessions''" "Some ''500''" 100 "''7''" 7]
          searchSessions_limit
            [of noOptions 500 manyWorld "''/sessions''" "Some ''500''" 100 "''7''" 7]
          manyWorld_candidates apiLimit_examples(1) p n
    by (simp add: length_sortBy)
qed

text \<open>
  C3. When a query that is not empty is given, every result has a relevance above 0,
  namely its score against the query; a parsed session whose score is 0 is skipped.
\<close>

theorem searchSessions_relevance_positive:
  assumes "query options = Some q" and "q \<noteq> []"
  shows "(r \<in> set (searchSessions w baseDir options) \<longrightarrow>
            0 < relevance r \<and> relevance r = scoreRelevance r q)
       \<and> (parseSessionFile w filePath = Parsed session \<and> scoreRelevance session q = 0 \<longrightarrow>
            considerFile w options filePath = None)"
proof (intro conjI impI)
  assume r: "r \<in> set (searchSessions w baseDir options)"
  have given: "queryGiven options" using assms by (simp add: queryGiven_def)
  show eq: "relevance r = scoreRelevance r q"
    using searchSessions_relevance(1) [OF r] assms by simp
  have "relevance r \<noteq> 0" using searchSessions_relevance(2) [OF r given] .
  moreover have "0 \<le> relevance r" using eq scoreRelevance_nonneg [of r q] by simp
  ultimately show "0 < relevance r" by simp
next
  assume "parseSessionFile w filePath = Parsed session \<and> scoreRelevance session q = 0"
  then show "considerFile w options filePath = None"
    using assms by (simp add: considerFile_zero_score)
qed

theorem searchSessions_relevance_positive_witness:
  "query (noOptions\<lparr>query := Some ''email''\<rparr>) = Some ''email''
   \<and> hd (searchSessions exampleWorld ''/sessions'' (noOptions\<lparr>query := Some ''email''\<rparr>))
       \<in> set (searchSessions exampleWorld ''/sessions'' (noOptions\<lparr>query := Some ''email''\<rparr>))
   \<and> 0 < relevance (hd (searchSessions exampleWorld ''/sessions'' (noOptions\<lparr>query := Some ''email''\<rparr>)))
   \<and> parseSessionFile exampleWorld ''/sessions/proj/b.jsonl'' = Parsed schemaSession
   \<and> scoreRelevance schemaSession ''email'' = 0
   \<and> considerFile exampleWorld (noOptions\<lparr>query := Some ''email''\<rparr>) ''/sessions/proj/b.jsonl'' = None"
proof -
  let ?o = "noOptions\<lparr>query := Some ''email''\<rparr>"
  let ?R = "searchSessions exampleWorld ''/sessions'' ?o"
  have q: "query ?o = Some ''email''" by simp
  have "?R \<noteq> []" using example_email by auto
  then have h: "hd ?R \<in> set ?R" by simp
  have p: "parseSessionFile exampleWorld ''/sessions/proj/b.jsonl'' = Parsed schemaSession"
    by (simp add: exampleWorld_def)
  have z: "scoreRelevance schemaSession ''email'' = 0" by code_simp
  show ?thesis
    using searchSessions_relevance_positive
            [OF q, of "hd ?R" exampleWorld "''/sessions''" "''/sessions/proj/b.jsonl''" schemaSession]
          h p z
    by simp
qed

text \<open>
  C4. For a query that is not empty, \<open>scoreRelevance\<close> is the specification's score:
  the terms are the lowercased white-space-separated words of the query, and every
  case-insensitive occurrence of a term in a user message counts 10, in a tool name 3,
  in a file path 3. A session with the user messages ``Let's build an email filter''
  and ``Yes, ship it'' scores at least 10 for ``email'' and is pushed as a result; with
  the tools Edit and Bash and no file path that contains ``database'' it scores 0 for
  ``database'' and is skipped.
\<close>

theorem scoreRelevance_weights:
  fixes session :: parsedSession
  shows
  "(qry \<noteq> [] \<longrightarrow> scoreRelevance session qry = spec_score session qry)
   \<and> (userMessages session = [''Let's build an email filter'', ''Yes, ship it''] \<longrightarrow>
        10 \<le> scoreRelevance session ''email''
      \<and> (parseSessionFile w filePath = Parsed session \<and> matchesFilters session options
           \<and> query options = Some ''email'' \<longrightarrow>
          (\<exists>r. considerFile w options filePath = Some r \<and> 10 \<le> relevance r))
      \<and> (toolsUsed session = [''Edit'', ''Bash'']
           \<and> (\<forall>f\<in>set (filesFromToolCalls session). \<not> spec_matches ''database'' f) \<longrightarrow>
          scoreRelevance session ''database'' = 0
        \<and> (parseSessionFile w filePath = Parsed session \<and> query options = Some ''database'' \<longrightarrow>
            considerFile w options filePath = None)))"
proof (intro conjI impI)
  assume "qry \<noteq> []"
  then show "scoreRelevance session qry = spec_score session qry"
    by (rule scoreRelevance_spec)
next
  assume m: "userMessages session = [''Let's build an email filter'', ''Yes, ship it'']"
  show "10 \<le> scoreRelevance session ''email''" using m by (rule scenario_email)
next
  assume m: "userMessages session = [''Let's build an email filter'', ''Yes, ship it'']"
    and a: "parseSessionFile w filePath = Parsed session \<and> matchesFilters session options
           \<and> query options = Some ''email''"
  have ten: "10 \<le> scoreRelevance session ''email''" using m by (rule scenario_email)
  then have "scoreRelevance session ''email'' \<noteq> 0" by simp
  with a m have "\<exists>r. considerFile w options filePath = Some r
                   \<and> relevance r = scoreRelevance session ''email''"
    by (intro considerFile_Some) simp_all
  then show "\<exists>r. considerFile w options filePath = Some r \<and> 10 \<le> relevance r"
    using ten by auto
next
  assume m: "userMessages session = [''Let's build an email filter'', ''Yes, ship it'']"
    and t: "toolsUsed session = [''Edit'', ''Bash'']
           \<and> (\<forall>f\<in>set (filesFromToolCalls session). \<not> spec_matches ''database'' f)"
  show "scoreRelevance session ''database'' = 0"
    using m t by (intro scenario_database) simp_all
next
  assume m: "userMessages session = [''Let's build an email filter'', ''Yes, ship it'']"
    and t: "toolsUsed session = [''Edit'', ''Bash'']
           \<and> (\<forall>f\<in>set (filesFromToolCalls session). \<not> spec_matches ''database'' f)"
    and a: "parseSessionFile w filePath = Parsed session \<and> query options = Some ''database''"
  have "scoreRelevance session ''database'' = 0"
    using m t by (intro scenario_database) simp_all
  with a show "considerFile w options filePath = None"
    by (intro considerFile_zero_score [where q = "''database''"]) simp_all
qed

theorem scoreRelevance_weights_witness:
  "''email'' \<noteq> []
   \<and> spec_score emailSession ''email'' = 10
   \<and> scoreRelevance emailSession ''database'' = 0
   \<and> (\<exists>r. considerFile exampleWorld (noOptions\<lparr>query := Some ''email''\<rparr>) ''/sessions/proj/a.jsonl''
            = Some r \<and> 10 \<le> relevance r)
   \<and> considerFile exampleWorld (noOptions\<lparr>query := Some ''database''\<rparr>) ''/sessions/proj/a.jsonl''
       = None"
proof -
  have p: "parseSessionFile exampleWorld ''/sessions/proj/a.jsonl'' = Parsed emailSession"
    by (simp add: exampleWorld_def)
  have f: "matchesFilters emailSession (noOptions\<lparr>query := Some ''email''\<rparr>)"
    by (simp add: matchesFilters_def noOptions_def)
  show ?thesis
    using scoreRelevance_weights
            [of "''email''" emailSession exampleWorld "''/sessions/proj/a.jsonl''"
                "noOptions\<lparr>query := Some ''email''\<rparr>"]
          scoreRelevance_weights
            [of "''email''" emailSession exampleWorld "''/sessions/proj/a.jsonl''"
                "noOptions\<lparr>query := Some ''database''\<rparr>"]
          p f email_scores(1) email_no_database_file
    by simp
qed

text \<open>
  C5. The results of \<open>searchSessions\<close> are sorted by relevance, the highest first, and
  results of equal relevance by \<open>endedAt\<close>, the latest first. The sequence of the pairs
  (relevance, \<open>endedAt\<close>) of the results depends only on the records found, not on the
  order in which the files were read.
\<close>

theorem searchSessions_order:
  "sorted_wrt spec_precedes (searchSessions w baseDir options)
   \<and> (i < j \<and> j < length (searchSessions w baseDir options) \<longrightarrow>
        relevance (searchSessions w baseDir options ! j)
          \<le> relevance (searchSessions w baseDir options ! i)
      \<and> (relevance (searchSessions w baseDir options ! i)
            = relevance (searchSessions w baseDir options ! j) \<longrightarrow>
          endedAt (searchSessions w baseDir options ! j)
            \<le> endedAt (searchSessions w baseDir options ! i)))
   \<and> (mset (pushDirs w options (findSessionDirs w baseDir) []) =
       mset (pushDirs w' options (findSessionDirs w' baseDir') []) \<longrightarrow>
        map spec_key (searchSessions w baseDir options) =
        map spec_key (searchSessions w' baseDir' options))"
proof (intro conjI impI)
  show s: "sorted_wrt spec_precedes (searchSessions w baseDir options)"
    by (rule searchSessions_sorted)
  {
    assume ij: "i < j \<and> j < length (searchSessions w baseDir options)"
    then have p: "spec_precedes (searchSessions w baseDir options ! i)
                                (searchSessions w baseDir options ! j)"
      using s by (simp add: sorted_wrt_nth)
    then show "relevance (searchSessions w baseDir options ! j)
                 \<le> relevance (searchSessions w baseDir options ! i)"
      by (auto simp: spec_precedes_def)
    assume "relevance (searchSessions w baseDir options ! i)
              = relevance (searchSessions w baseDir options ! j)"
    then show "endedAt (searchSessions w baseDir options ! j)
                 \<le> endedAt (searchSessions w baseDir options ! i)"
      using p by (auto simp: spec_precedes_def)
  }
  assume "mset (pushDirs w options (findSessionDirs w baseDir) []) =
          mset (pushDirs w' options (findSessionDirs w' baseDir') [])"
  then show "map spec_key (searchSessions w baseDir options) =
             map spec_key (searchSessions w' baseDir' options)"
    by (rule searchSessions_keys)
qed

theorem searchSessions_order_witness:
  "pushDirs exampleWorld (noOptions\<lparr>query := Some ''email''\<rparr>)
       (findSessionDirs exampleWorld ''/sessions'') []
     \<noteq> pushDirs reorderedWorld (noOptions\<lparr>query := Some ''email''\<rparr>)
         (findSessionDirs reorderedWorld ''/sessions'') []
   \<and> mset (pushDirs exampleWorld (noOptions\<lparr>query := Some ''email''\<rparr>)
       (findSessionDirs exampleWorld ''/sessions'') [])
     = mset (pushDirs reorderedWorld (noOptions\<lparr>query := Some ''email''\<rparr>)
         (findSessionDirs reorderedWorld ''/sessions'') [])
   \<and> map spec_key (searchSessions exampleWorld ''/sessions'' (noOptions\<lparr>query := Some ''email''\<rparr>))
     = map spec_key (searchSessions reorderedWorld ''/sessions'' (noOptions\<lparr>query := Some ''email''\<rparr>))
   \<and> (0 :: nat) < 1
   \<and> 1 < length (searchSessions exampleWorld ''/sessions'' (noOptions\<lparr>query := Some ''email''\<rparr>))
   \<and> relevance (searchSessions exampleWorld ''/sessions'' (noOptions\<lparr>query := Some ''email''\<rparr>) ! 0)
     = relevance (searchSessions exampleWorld ''/sessions'' (noOptions\<lparr>query := Some ''email''\<rparr>) ! 1)
   \<and> endedAt (searchSessions exampleWorld ''/sessions'' (noOptions\<lparr>query := Some ''email''\<rparr>) ! 1)
     \<le> endedAt (searchSessions exampleWorld ''/sessions'' (noOptions\<lparr>query := Some ''email''\<rparr>) ! 0)"
proof -
  let ?o = "noOptions\<lparr>query := Some ''email''\<rparr>"
  let ?R = "searchSessions exampleWorld ''/sessions'' ?o"
  have ne: "pushDirs exampleWorld ?o (findSessionDirs exampleWorld ''/sessions'') []
              \<noteq> pushDirs reorderedWorld ?o (findSessionDirs reorderedWorld ''/sessions'') []"
    unfolding example_candidates example_candidates_reordered
    by (simp add: parsedSession.defs searchResult.defs emailSession_def mailSession_def mkSession_def)
  have ms: "mset (pushDirs exampleWorld ?o (findSessionDirs exampleWorld ''/sessions'') [])
              = mset (pushDirs reorderedWorld ?o (findSessionDirs reorderedWorld ''/sessions'') [])"
    unfolding example_candidates example_candidates_reordered by simp
  have len: "length ?R = 2" using arg_cong [OF example_email, of length] by simp
  have rel: "map relevance ?R = [10, 10]"
    using arg_cong [OF example_email, of "map (\<lambda>(a, b, c). b)"] by (simp add: o_def)
  have "relevance (?R ! 0) = map relevance ?R ! 0" and "relevance (?R ! 1) = map relevance ?R ! 1"
    using len by simp_all
  then have eq: "relevance (?R ! 0) = relevance (?R ! 1)"
    by (simp add: rel)
  show ?thesis
    using searchSessions_order [of exampleWorld "''/sessions''" ?o 0 1 reorderedWorld "''/sessions''"]
          ne ms len eq
    by simp
qed

text \<open>
  C6, counterexample. The window is not a window on \<open>endedAt\<close>: the log \<open>a.jsonl\<close>,
  last written on 18 January, holds a session that ended on 10 January, and a search
  for the sessions since 15 January returns it; the log \<open>c.jsonl\<close>, last written on
  10 January, holds a session that ended on 15 January, and the same search leaves it
  out.
\<close>

theorem date_window_counterexample:
  "since (noOptions\<lparr>since := Some (Date jan15)\<rparr>) = Some (Date jan15)
   \<and> until (noOptions\<lparr>since := Some (Date jan15)\<rparr>) = None
   \<and> map (\<lambda>r. (parsedSession.id r, endedAt r))
         (searchSessions exampleWorld ''/sessions'' (noOptions\<lparr>since := Some (Date jan15)\<rparr>)) =
       [(''b'', jan18), (''a'', jan10)]
   \<and> jan10 < jan15
   \<and> parseSessionFile exampleWorld ''/sessions/proj/c.jsonl'' = Parsed mailSession
   \<and> parsedSession.id mailSession = ''c''
   \<and> userMessages mailSession \<noteq> []
   \<and> jan15 \<le> endedAt mailSession"
  using example_since_jan15
  by (simp add: noOptions_def exampleWorld_def mailSession_def mkSession_def jan10_def jan15_def)

text \<open>
  C6, as amended. All of this is for bounds that are valid dates: a \<open>since\<close> and an
  \<open>until\<close> that are absent or valid, and a number of days whose cutoff lies in the
  range of dates.

  The date window of the file-based search is a window on the modification time of the
  log file, not on \<open>endedAt\<close>. Every result of \<open>searchSessions\<close> comes from a file whose
  modification time is not before the cutoff \<open>since\<close> and not after \<open>until\<close>, an
  absent bound admitting everything; and in a directory that can be listed and whose
  \<open>.jsonl\<close> entries can all be examined, \<open>findSessionFiles\<close> returns exactly the
  \<open>.jsonl\<close> files with such a modification time. The cutoff is the explicit \<open>since\<close>
  when one is given, also beside \<open>days\<close>; otherwise, for \<open>days\<close> not zero, it is the
  clock reading less \<open>days\<close> days. With \<open>days = 7\<close> on 20 January 2025 a file last
  written on 10 January is left out and one last written on 18 January is returned.

  The HTTP route puts its window on \<open>ended_at\<close>: a row passes the date conditions
  exactly if \<open>ended_at\<close> is after the database's \<open>NOW()\<close> less \<open>days\<close> days, not
  before \<open>since\<close> and not after \<open>until\<close>, for each of the three that is given and
  all of them together; an explicit \<open>since\<close> does not replace \<open>days\<close> there. With
  \<open>days = 7\<close> and the database's clock at 20 January 2025 a row that ended on
  10 January fails them and one that ended on 18 January passes.
\<close>

theorem findSessionFiles_date_window:
  "(r \<in> set (searchSessions w baseDir options) \<longrightarrow>
      (\<exists>d st. statSync w (transcriptPath r) = Some st
         \<and> (\<forall>s. sinceCutoff options (clock w d) = Some (Date s) \<longrightarrow> s \<le> mtime st)
         \<and> (\<forall>u. until options = Some (Date u) \<longrightarrow> mtime st \<le> u)))
   \<and> (readdirSync w dir = Some names
        \<and> (\<forall>f\<in>set names. endsWith f ''.jsonl'' \<longrightarrow> statSync w (join w dir f) \<noteq> None)
        \<and> since options \<noteq> Some InvalidDate
        \<and> until options \<noteq> Some InvalidDate
        \<and> (since options = None \<longrightarrow>
             (\<forall>k. days options = Some k \<and> k \<noteq> 0 \<longrightarrow>
                validTime (clock w dir - k * (24 * 60 * 60 * 1000)))) \<longrightarrow>
      sinceCutoff options (clock w dir) \<noteq> Some InvalidDate
      \<and> (path \<in> set (findSessionFiles w dir options) \<longleftrightarrow>
           (\<exists>f\<in>set names. \<exists>st. endsWith f ''.jsonl'' \<and> path = join w dir f
              \<and> statSync w path = Some st
              \<and> (\<forall>s. sinceCutoff options (clock w dir) = Some (Date s) \<longrightarrow> s \<le> mtime st)
              \<and> (\<forall>u. until options = Some (Date u) \<longrightarrow> mtime st \<le> u))))
   \<and> (since options = Some x \<longrightarrow> sinceCutoff options now = Some x)
   \<and> (since options = None \<and> days options = Some n \<and> n \<noteq> 0
        \<and> validTime (now - n * (24 * 60 * 60 * 1000)) \<longrightarrow>
      sinceCutoff options now = Some (Date (now - n * (24 * 60 * 60 * 1000))))
   \<and> (readdirSync w dir = Some names
        \<and> (\<forall>f\<in>set names. endsWith f ''.jsonl'' \<longrightarrow> statSync w (join w dir f) \<noteq> None)
        \<and> since options = None \<and> days options = Some 7 \<and> until options = None
        \<and> clock w dir = jan20 \<and> g \<in> set names \<and> endsWith g ''.jsonl''
        \<and> statSync w (join w dir g) = Some gst \<longrightarrow>
      (mtime gst = jan10 \<longrightarrow> join w dir g \<notin> set (findSessionFiles w dir options))
      \<and> (mtime gst = jan18 \<longrightarrow> join w dir g \<in> set (findSessionFiles w dir options)))
   \<and> (snc \<noteq> Some InvalidDate \<and> unt \<noteq> Some InvalidDate
        \<and> (\<forall>m. dys = Some m \<longrightarrow> nowMinusDays db m \<noteq> None) \<longrightarrow>
      (apiDateCondition db dys snc unt e \<longleftrightarrow>
           (\<forall>m c. dys = Some m \<and> nowMinusDays db m = Some c \<longrightarrow> c < e)
         \<and> (\<forall>s. snc = Some (Date s) \<longrightarrow> s \<le> e)
         \<and> (\<forall>u. unt = Some (Date u) \<longrightarrow> e \<le> u)))
   \<and> (nowMinusDays db (Num 7) = Some (jan20 - 7 * (24 * 60 * 60 * 1000)) \<longrightarrow>
      \<not> apiDateCondition db (Some (Num 7)) None None jan10
      \<and> apiDateCondition db (Some (Num 7)) None None jan18)"
proof (intro conjI impI)
  assume "r \<in> set (searchSessions w baseDir options)"
  then show "\<exists>d st. statSync w (transcriptPath r) = Some st
         \<and> (\<forall>s. sinceCutoff options (clock w d) = Some (Date s) \<longrightarrow> s \<le> mtime st)
         \<and> (\<forall>u. until options = Some (Date u) \<longrightarrow> mtime st \<le> u)"
    by (rule searchSessions_file_window)
next
  assume a: "readdirSync w dir = Some names
        \<and> (\<forall>f\<in>set names. endsWith f ''.jsonl'' \<longrightarrow> statSync w (join w dir f) \<noteq> None)
        \<and> since options \<noteq> Some InvalidDate
        \<and> until options \<noteq> Some InvalidDate
        \<and> (since options = None \<longrightarrow>
             (\<forall>k. days options = Some k \<and> k \<noteq> 0 \<longrightarrow>
                validTime (clock w dir - k * (24 * 60 * 60 * 1000))))"
  then show "sinceCutoff options (clock w dir) \<noteq> Some InvalidDate"
    by (intro sinceCutoff_valid) simp_all
next
  assume a: "readdirSync w dir = Some names
        \<and> (\<forall>f\<in>set names. endsWith f ''.jsonl'' \<longrightarrow> statSync w (join w dir f) \<noteq> None)
        \<and> since options \<noteq> Some InvalidDate
        \<and> until options \<noteq> Some InvalidDate
        \<and> (since options = None \<longrightarrow>
             (\<forall>k. days options = Some k \<and> k \<noteq> 0 \<longrightarrow>
                validTime (clock w dir - k * (24 * 60 * 60 * 1000))))"
  then have rd: "readdirSync w dir = Some names"
    and ok: "\<forall>f\<in>set names. endsWith f ''.jsonl'' \<longrightarrow> statSync w (join w dir f) \<noteq> None"
    by simp_all
  show "path \<in> set (findSessionFiles w dir options) \<longleftrightarrow>
           (\<exists>f\<in>set names. \<exists>st. endsWith f ''.jsonl'' \<and> path = join w dir f
              \<and> statSync w path = Some st
              \<and> (\<forall>s. sinceCutoff options (clock w dir) = Some (Date s) \<longrightarrow> s \<le> mtime st)
              \<and> (\<forall>u. until options = Some (Date u) \<longrightarrow> mtime st \<le> u))"
    by (rule findSessionFiles_iff [OF rd ok])
next
  assume "since options = Some x"
  then show "sinceCutoff options now = Some x" by (rule sinceCutoff_explicit)
next
  assume "since options = None \<and> days options = Some n \<and> n \<noteq> 0
        \<and> validTime (now - n * (24 * 60 * 60 * 1000))"
  then show "sinceCutoff options now = Some (Date (now - n * (24 * 60 * 60 * 1000)))"
    by (simp add: sinceCutoff_days)
next
  assume a: "readdirSync w dir = Some names
        \<and> (\<forall>f\<in>set names. endsWith f ''.jsonl'' \<longrightarrow> statSync w (join w dir f) \<noteq> None)
        \<and> since options = None \<and> days options = Some 7 \<and> until options = None
        \<and> clock w dir = jan20 \<and> g \<in> set names \<and> endsWith g ''.jsonl''
        \<and> statSync w (join w dir g) = Some gst"
    and m: "mtime gst = jan10"
  have "validTime (jan20 - 7 * (24 * 60 * 60 * 1000))"
    by (simp add: validTime_def jan20_def)
  then have cut: "sinceCutoff options (clock w dir) = Some (Date (jan20 - 7 * (24 * 60 * 60 * 1000)))"
    using a by (simp add: sinceCutoff_days)
  show "join w dir g \<notin> set (findSessionFiles w dir options)"
  proof
    assume "join w dir g \<in> set (findSessionFiles w dir options)"
    from findSessionFiles_sound [OF this] a cut m show False
      by (simp add: jan10_def jan20_def)
  qed
next
  assume a: "readdirSync w dir = Some names
        \<and> (\<forall>f\<in>set names. endsWith f ''.jsonl'' \<longrightarrow> statSync w (join w dir f) \<noteq> None)
        \<and> since options = None \<and> days options = Some 7 \<and> until options = None
        \<and> clock w dir = jan20 \<and> g \<in> set names \<and> endsWith g ''.jsonl''
        \<and> statSync w (join w dir g) = Some gst"
    and m: "mtime gst = jan18"
  then have rd: "readdirSync w dir = Some names"
    and ok: "\<forall>f\<in>set names. endsWith f ''.jsonl'' \<longrightarrow> statSync w (join w dir f) \<noteq> None"
    by simp_all
  have "validTime (jan20 - 7 * (24 * 60 * 60 * 1000))"
    by (simp add: validTime_def jan20_def)
  then have cut: "sinceCutoff options (clock w dir) = Some (Date (jan20 - 7 * (24 * 60 * 60 * 1000)))"
    using a by (simp add: sinceCutoff_days)
  show "join w dir g \<in> set (findSessionFiles w dir options)"
    unfolding findSessionFiles_iff [OF rd ok]
    using a cut m by (auto simp: jan18_def jan20_def)
next
  assume "snc \<noteq> Some InvalidDate \<and> unt \<noteq> Some InvalidDate
        \<and> (\<forall>m. dys = Some m \<longrightarrow> nowMinusDays db m \<noteq> None)"
  then show "apiDateCondition db dys snc unt e \<longleftrightarrow>
           (\<forall>m c. dys = Some m \<and> nowMinusDays db m = Some c \<longrightarrow> c < e)
         \<and> (\<forall>s. snc = Some (Date s) \<longrightarrow> s \<le> e)
         \<and> (\<forall>u. unt = Some (Date u) \<longrightarrow> e \<le> u)"
    by (auto simp: apiDateCondition_def split: option.splits date.splits)
next
  assume c: "nowMinusDays db (Num 7) = Some (jan20 - 7 * (24 * 60 * 60 * 1000))"
  then show "\<not> apiDateCondition db (Some (Num 7)) None None jan10"
    by (simp add: apiDateCondition_def jan10_def jan20_def)
  from c show "apiDateCondition db (Some (Num 7)) None None jan18"
    by (simp add: apiDateCondition_def jan18_def jan20_def)
qed

theorem findSessionFiles_date_window_witness:
  "readdirSync exampleWorld ''/sessions/proj'' =
     Some [''a.jsonl'', ''b.jsonl'', ''README.md'', ''c.jsonl'', ''d.jsonl'', ''e.jsonl'']
   \<and> days (noOptions\<lparr>days := Some 7\<rparr>) = Some 7
   \<and> clock exampleWorld ''/sessions/proj'' = jan20
   \<and> ''/sessions/proj/a.jsonl''
       \<in> set (findSessionFiles exampleWorld ''/sessions/proj'' (noOptions\<lparr>days := Some 7\<rparr>))
   \<and> ''/sessions/proj/c.jsonl''
       \<notin> set (findSessionFiles exampleWorld ''/sessions/proj'' (noOptions\<lparr>days := Some 7\<rparr>))
   \<and> sinceCutoff (noOptions\<lparr>days := Some 7\<rparr>) jan20 = Some (Date 1736726400000)
   \<and> nowMinusDays exampleDatabase (Num 7) = Some 1736726400000
   \<and> \<not> apiDateCondition exampleDatabase (Some (Num 7)) None None jan10
   \<and> apiDateCondition exampleDatabase (Some (Num 7)) None None jan18"
proof -
  let ?names = "[''a.jsonl'', ''b.jsonl'', ''README.md'', ''c.jsonl'', ''d.jsonl'', ''e.jsonl'']"
  let ?o = "noOptions\<lparr>days := Some 7\<rparr>"
  have ia: "readdirSync exampleWorld ''/sessions/proj'' = Some ?names
             \<and> (\<forall>f\<in>set ?names. endsWith f ''.jsonl''
                  \<longrightarrow> statSync exampleWorld (join exampleWorld ''/sessions/proj'' f) \<noteq> None)
             \<and> since ?o = None \<and> days ?o = Some 7 \<and> until ?o = None
             \<and> clock exampleWorld ''/sessions/proj'' = jan20
             \<and> ''a.jsonl'' \<in> set ?names \<and> endsWith ''a.jsonl'' ''.jsonl''
             \<and> statSync exampleWorld (join exampleWorld ''/sessions/proj'' ''a.jsonl'')
                 = Some \<lparr>isDirectory = False, mtime = jan18\<rparr>"
    by (simp add: example_stats example_jsonl noOptions_def)
  have ic: "readdirSync exampleWorld ''/sessions/proj'' = Some ?names
             \<and> (\<forall>f\<in>set ?names. endsWith f ''.jsonl''
                  \<longrightarrow> statSync exampleWorld (join exampleWorld ''/sessions/proj'' f) \<noteq> None)
             \<and> since ?o = None \<and> days ?o = Some 7 \<and> until ?o = None
             \<and> clock exampleWorld ''/sessions/proj'' = jan20
             \<and> ''c.jsonl'' \<in> set ?names \<and> endsWith ''c.jsonl'' ''.jsonl''
             \<and> statSync exampleWorld (join exampleWorld ''/sessions/proj'' ''c.jsonl'')
                 = Some \<lparr>isDirectory = False, mtime = jan10\<rparr>"
    by (simp add: example_stats example_jsonl noOptions_def)
  have a: "join exampleWorld ''/sessions/proj'' ''a.jsonl''
             \<in> set (findSessionFiles exampleWorld ''/sessions/proj'' ?o)"
    using findSessionFiles_date_window
            [THEN conjunct2, THEN conjunct2, THEN conjunct2, THEN conjunct2, THEN conjunct1,
             THEN mp, OF ia]
    by simp
  have c: "join exampleWorld ''/sessions/proj'' ''c.jsonl''
             \<notin> set (findSessionFiles exampleWorld ''/sessions/proj'' ?o)"
    using findSessionFiles_date_window
            [THEN conjunct2, THEN conjunct2, THEN conjunct2, THEN conjunct2, THEN conjunct1,
             THEN mp, OF ic]
    by simp
  have v: "since ?o = None \<and> days ?o = Some 7 \<and> (7 :: int) \<noteq> 0
             \<and> validTime (jan20 - 7 * (24 * 60 * 60 * 1000))"
    by (simp add: noOptions_def validTime_def jan20_def)
  have cut: "sinceCutoff ?o jan20 = Some (Date 1736726400000)"
    using findSessionFiles_date_window
            [THEN conjunct2, THEN conjunct2, THEN conjunct2, THEN conjunct1, THEN mp, OF v]
    by (simp add: jan20_def)
  have db: "nowMinusDays exampleDatabase (Num 7) = Some (jan20 - 7 * (24 * 60 * 60 * 1000))"
    by (simp add: exampleDatabase_def)
  have route: "\<not> apiDateCondition exampleDatabase (Some (Num 7)) None None jan10
               \<and> apiDateCondition exampleDatabase (Some (Num 7)) None None jan18"
    using findSessionFiles_date_window
            [THEN conjunct2, THEN conjunct2, THEN conjunct2, THEN conjunct2, THEN conjunct2,
             THEN conjunct2, THEN mp, OF db]
    by simp
  show ?thesis
    using a c cut route db by (simp add: example_stats noOptions_def jan20_def)
qed

text \<open>
  C7, counterexample. The HTTP route does not go by substrings: its condition on
  \<open>tools_used\<close> does not admit a row that used ``Edit'' for the request ``edit'',
  although ``edit'' occurs in ``Edit'' when letter case is ignored.
\<close>

theorem tool_filter_counterexample:
  "apiToolList ''edit'' = [''edit'']
   \<and> spec_matches ''edit'' ''Edit''
   \<and> \<not> apiToolCondition (Some ''edit'') [''Edit'']"
  by code_simp

text \<open>
  C7, as amended. In the file-based search, when tools are requested, \<open>matchesFilters\<close>
  admits a session exactly if some requested tool name occurs, letter case ignored,
  inside some tool name of the session (and the file pattern, if there is one, matches
  too); a session that used ``Edit'' is admitted by the request ``edit''. The HTTP
  route is stricter: it admits a row only if a requested name, trimmed, is equal to one
  of the row's tool names, so every row it admits also satisfies the substring rule.
\<close>

theorem matchesFilters_tool_filter:
  assumes "tools options = Some ts" and "ts \<noteq> []"
  shows "(matchesFilters session options \<longleftrightarrow>
            (\<exists>tool\<in>set ts. \<exists>t\<in>set (toolsUsed session).
               \<exists>p q. toLowerCase t = p @ toLowerCase tool @ q)
          \<and> (case filePattern options of
                Some fp \<Rightarrow> fp = [] \<or> (\<exists>f\<in>set (filesFromToolCalls session). spec_matches fp f)
              | None \<Rightarrow> True))
       \<and> (ts = [''edit''] \<and> ''Edit'' \<in> set (toolsUsed session) \<and> filePattern options = None \<longrightarrow>
            matchesFilters session options)
       \<and> (param \<noteq> [] \<longrightarrow>
            (apiToolCondition (Some param) tools_used \<longleftrightarrow>
               (\<exists>name\<in>set (apiToolList param). name \<in> set tools_used))
          \<and> (apiToolCondition (Some param) tools_used \<longrightarrow>
               (\<exists>name\<in>set (apiToolList param). \<exists>t\<in>set tools_used. spec_matches name t)))"
proof -
  have iff: "matchesFilters session options \<longleftrightarrow>
            (\<exists>tool\<in>set ts. \<exists>t\<in>set (toolsUsed session).
               \<exists>p q. toLowerCase t = p @ toLowerCase tool @ q)
          \<and> (case filePattern options of
                Some fp \<Rightarrow> fp = [] \<or> (\<exists>f\<in>set (filesFromToolCalls session). spec_matches fp f)
              | None \<Rightarrow> True)"
    using assms by (simp add: matchesFilters_iff spec_matches_def sublist_def)
  have edit: "matchesFilters session options"
    if "ts = [''edit''] \<and> ''Edit'' \<in> set (toolsUsed session) \<and> filePattern options = None"
    using that assms spec_matches_Edit by (auto simp: matchesFilters_iff)
  have api: "apiToolCondition (Some param) tools_used \<longleftrightarrow>
               (\<exists>name\<in>set (apiToolList param). name \<in> set tools_used)"
    if "param \<noteq> []"
    using that by (simp add: apiToolCondition_def list_ex_iff)
  have "\<exists>name\<in>set (apiToolList param). \<exists>t\<in>set tools_used. spec_matches name t"
    if "param \<noteq> []" and "apiToolCondition (Some param) tools_used"
  proof -
    from that api obtain name where "name \<in> set (apiToolList param)" "name \<in> set tools_used"
      by auto
    moreover have "spec_matches name name" by (simp add: spec_matches_def)
    ultimately show ?thesis by blast
  qed
  with iff edit api show ?thesis by blast
qed

theorem matchesFilters_tool_filter_witness:
  "tools (noOptions\<lparr>tools := Some [''edit'']\<rparr>) = Some [''edit'']
   \<and> ''Edit'' \<in> set (toolsUsed emailSession)
   \<and> matchesFilters emailSession (noOptions\<lparr>tools := Some [''edit'']\<rparr>)
   \<and> \<not> matchesFilters emailSession (noOptions\<lparr>tools := Some [''grep'', ''read'']\<rparr>)
   \<and> ''Bash, Edit'' \<noteq> []
   \<and> apiToolList ''Bash, Edit'' = [''Bash'', ''Edit'']
   \<and> apiToolCondition (Some ''Bash, Edit'') [''Read'', ''Edit'']"
proof -
  have t: "tools (noOptions\<lparr>tools := Some [''edit'']\<rparr>) = Some [''edit'']" by simp
  have ne: "[''edit''] \<noteq> []" by simp
  have no: "\<not> matchesFilters emailSession (noOptions\<lparr>tools := Some [''grep'', ''read'']\<rparr>)"
    by code_simp
  have e: "\<exists>p q. toLowerCase ''Edit'' = p @ toLowerCase ''edit'' @ q"
    using spec_matches_Edit by (simp add: spec_matches_def sublist_def)
  have l: "apiToolList ''Bash, Edit'' = [''Bash'', ''Edit'']" by code_simp
  show ?thesis
    using matchesFilters_tool_filter
            [OF t ne, of emailSession "''Bash, Edit''" "[''Read'', ''Edit'']"] no e l
    by (simp add: email_no_database_file noOptions_def)
qed

text \<open>
  C8. On the empty query the score is 1 for every session, and no score is negative
  for any session and any query. When no query is given every result carries the
  relevance 1, and the results are listed by \<open>endedAt\<close>, the latest first.
\<close>

theorem scoreRelevance_empty_query_baseline:
  fixes session :: "'a parsedSession_scheme"
  shows "scoreRelevance session [] = 1
       \<and> 0 \<le> scoreRelevance session qry
       \<and> (\<not> queryGiven options \<longrightarrow>
            (\<forall>r\<in>set (searchSessions w baseDir options). relevance r = 1)
          \<and> sorted_wrt (\<lambda>a b. endedAt b \<le> endedAt a) (searchSessions w baseDir options))"
proof (intro conjI impI ballI)
  show "scoreRelevance session [] = 1" by (simp add: scoreRelevance_def)
  show "0 \<le> scoreRelevance session qry" by (rule scoreRelevance_nonneg)
next
  fix r
  assume "\<not> queryGiven options" and "r \<in> set (searchSessions w baseDir options)"
  then show "relevance r = 1" by (rule searchSessions_no_query)
next
  assume nq: "\<not> queryGiven options"
  have "spec_precedes a b \<Longrightarrow> endedAt b \<le> endedAt a"
    if "a \<in> set (searchSessions w baseDir options)" "b \<in> set (searchSessions w baseDir options)"
    for a b
    using searchSessions_no_query [OF nq that(1)] searchSessions_no_query [OF nq that(2)]
    by (simp add: spec_precedes_def)
  then show "sorted_wrt (\<lambda>a b. endedAt b \<le> endedAt a) (searchSessions w baseDir options)"
    using searchSessions_sorted [of w baseDir options]
    by (auto intro: sorted_wrt_mono_rel [where P = spec_precedes])
qed

theorem scoreRelevance_empty_query_baseline_witness:
  "scoreRelevance emailSession [] = 1
   \<and> \<not> queryGiven noOptions
   \<and> hd (searchSessions exampleWorld ''/sessions'' noOptions)
       \<in> set (searchSessions exampleWorld ''/sessions'' noOptions)
   \<and> relevance (hd (searchSessions exampleWorld ''/sessions'' noOptions)) = 1
   \<and> sorted_wrt (\<lambda>a b. endedAt b \<le> endedAt a) (searchSessions exampleWorld ''/sessions'' noOptions)"
proof -
  have nq: "\<not> queryGiven noOptions" by (simp add: queryGiven_def noOptions_def)
  have "searchSessions exampleWorld ''/sessions'' noOptions \<noteq> []"
    using example_listing by auto
  then have h: "hd (searchSessions exampleWorld ''/sessions'' noOptions)
                  \<in> set (searchSessions exampleWorld ''/sessions'' noOptions)"
    by simp
  show ?thesis
    using scoreRelevance_empty_query_baseline
            [of emailSession "[]" noOptions exampleWorld "''/sessions''"] nq h
    by simp
qed

text \<open>
  C9. A query that is not empty and consists of white space only finds nothing: it has
  no term, every score is 0, and every session is skipped.
\<close>

theorem searchSessions_blank_query_empty:
  assumes "query options = Some q" and "q \<noteq> []" and "\<forall>c\<in>set q. isWhiteSpace c"
  shows "searchSessions w baseDir options = []
       \<and> filterBoolean (split_ws (toLowerCase q)) = []
       \<and> scoreRelevance session q = 0"
proof -
  have low: "\<forall>c\<in>set (toLowerCase q). isWhiteSpace c"
    using assms(3) by (simp add: toLowerCase_def toLowerChar_white)
  have terms: "filterBoolean (split_ws (toLowerCase q)) = []"
    using tokens_white [OF low] by (simp add: tokens_refine)
  have zero: "scoreRelevance s q = 0" for s :: "'z parsedSession_scheme"
    using assms(2) tokens_white [OF assms(3)]
    by (simp add: scoreRelevance_spec spec_score_no_tokens)
  have "r \<notin> set (searchSessions w baseDir options)" for r
  proof
    assume r: "r \<in> set (searchSessions w baseDir options)"
    have "queryGiven options" using assms by (simp add: queryGiven_def)
    then have "relevance r \<noteq> 0" using searchSessions_relevance(2) [OF r] by simp
    moreover have "relevance r = scoreRelevance r q"
      using searchSessions_relevance(1) [OF r] assms by simp
    ultimately show False using zero [of r] by simp
  qed
  then have "searchSessions w baseDir options = []"
    by (cases "searchSessions w baseDir options") auto
  then show ?thesis using terms zero by simp
qed

theorem searchSessions_blank_query_empty_witness:
  "query (noOptions\<lparr>query := Some ''  ''\<rparr>) = Some ''  ''
   \<and> ''  '' \<noteq> []
   \<and> isWhiteSpace (CHR '' '')
   \<and> searchSessions exampleWorld ''/sessions'' (noOptions\<lparr>query := Some ''  ''\<rparr>) = []
   \<and> searchSessions exampleWorld ''/sessions'' noOptions \<noteq> []"
proof -
  have q: "query (noOptions\<lparr>query := Some ''  ''\<rparr>) = Some ''  ''" by simp
  have ne: "''  '' \<noteq> []" by simp
  have ws: "\<forall>c\<in>set ''  ''. isWhiteSpace c" by (simp add: example_blank_query)
  have "searchSessions exampleWorld ''/sessions'' noOptions \<noteq> []"
    using example_listing by auto
  then show ?thesis
    using searchSessions_blank_query_empty
            [where session = emailSession and w = exampleWorld and baseDir = "''/sessions''",
             OF q ne ws]
    by (simp add: example_blank_query)
qed

text \<open>
  C10. The score depends only on the query and on the user messages, the tool names and
  the file paths of the session: two sessions that agree on these three fields get the
  same score for every query, whatever their summaries, categories, timestamps, token
  counts and other fields are.
\<close>

theorem scoreRelevance_depends_on_three_fields:
  fixes s1 :: "'a parsedSession_scheme" and s2 :: "'b parsedSession_scheme"
  assumes "userMessages s1 = userMessages s2"
    and "toolsUsed s1 = toolsUsed s2"
    and "filesFromToolCalls s1 = filesFromToolCalls s2"
  shows "scoreRelevance s1 qry = scoreRelevance s2 qry"
  using assms by (simp add: scoreRelevance_def)

theorem scoreRelevance_depends_on_three_fields_witness:
  "summary (schemaSession\<lparr>summary := None, category := Some ''db'', endedAt := jan10, inputTokens := 7\<rparr>)
     \<noteq> summary schemaSession
   \<and> scoreRelevance (schemaSession\<lparr>summary := None, category := Some ''db'', endedAt := jan10, inputTokens := 7\<rparr>) ''email''
     = scoreRelevance schemaSession ''email''"
  using scoreRelevance_depends_on_three_fields
          [of "schemaSession\<lparr>summary := None, category := Some ''db'', endedAt := jan10, inputTokens := 7\<rparr>"
              schemaSession "''email''"]
  by (simp add: schemaSession_def mkSession_def)

end
